theory Spec2Isabelle
  imports Main
begin

section \<open>Python values and errors\<close>

text \<open>
  The exceptions the tiling and lowering code can raise. None of them is raised
  explicitly by the source: they come from integer division by zero, from indexing,
  from calling a method on \<open>None\<close> and from numpy's shape and range checks.
\<close>

datatype py_error =
  ZeroDivisionError | IndexError | AttributeError | ValueError | OverflowError

text \<open>A \<open>for\<close> loop whose body may raise: the first exception ends the loop.\<close>

fun for_each :: "('a \<Rightarrow> py_error + 'b) \<Rightarrow> 'a list \<Rightarrow> py_error + 'b list" where
  "for_each f [] = Inr []"
| "for_each f (x # xs) =
     (case f x of
        Inl e \<Rightarrow> Inl e
      | Inr y \<Rightarrow> (case for_each f xs of Inl e \<Rightarrow> Inl e | Inr ys \<Rightarrow> Inr (y # ys)))"

text \<open>
  Python's \<open>xs[a:b]\<close>: a negative bound counts from the end, and both bounds are
  clamped to the length.
\<close>

definition slice_index :: "int \<Rightarrow> nat \<Rightarrow> nat" where
  "slice_index i n = (if i < 0 then nat (max 0 (i + int n)) else min (nat i) n)"

definition py_slice :: "int \<Rightarrow> int \<Rightarrow> 'a list \<Rightarrow> 'a list" where
  "py_slice a b xs =
     (let lo = slice_index a (length xs); hi = slice_index b (length xs)
      in take (hi - lo) (drop lo xs))"

text \<open>\<open>range(n)\<close> for a Python integer: empty when \<open>n \<le> 0\<close>.\<close>

definition py_range :: "int \<Rightarrow> int list" where
  "py_range n = map int [0..<nat n]"

text \<open>The source's ceiling idiom \<open>n//L + (n%L != 0)\<close>; Python's \<open>//\<close> and \<open>%\<close> floor.\<close>

definition ceil_reps :: "int \<Rightarrow> int \<Rightarrow> int" where
  "ceil_reps n L = n div L + (if n mod L \<noteq> 0 then 1 else 0)"

section \<open>Two-dimensional arrays\<close>

text \<open>
  A two-dimensional numpy array: its rows, and its column count (which numpy keeps
  also when there is no row). \<open>wf_matrix\<close> says that the array is rectangular.
\<close>

datatype 'a matrix = Matrix (ncols: nat) (rows: "'a list list")

definition nrows :: "'a matrix \<Rightarrow> nat" where
  "nrows m = length (rows m)"

definition shape :: "'a matrix \<Rightarrow> nat \<times> nat" where
  "shape m = (nrows m, ncols m)"

definition wf_matrix :: "'a matrix \<Rightarrow> bool" where
  "wf_matrix m = list_all (\<lambda>r. length r = ncols m) (rows m)"

text \<open>\<open>m[:, a:b]\<close> and \<open>m[a:b]\<close>.\<close>

definition col_slice :: "'a matrix \<Rightarrow> int \<Rightarrow> int \<Rightarrow> 'a matrix" where
  "col_slice m a b =
     Matrix (slice_index b (ncols m) - slice_index a (ncols m)) (map (py_slice a b) (rows m))"

definition row_slice :: "'a matrix \<Rightarrow> int \<Rightarrow> int \<Rightarrow> 'a matrix" where
  "row_slice m a b = Matrix (ncols m) (py_slice a b (rows m))"

text \<open>
  \<open>np.vstack\<close> and \<open>np.hstack\<close> of a list of two-dimensional arrays: both refuse an
  empty list and arrays that disagree on the other axis.
\<close>

definition vstack :: "'a matrix list \<Rightarrow> py_error + 'a matrix" where
  "vstack ms =
     (case ms of
        [] \<Rightarrow> Inl ValueError
      | m # _ \<Rightarrow>
          if list_all (\<lambda>x. ncols x = ncols m) ms
          then Inr (Matrix (ncols m) (concat (map rows ms)))
          else Inl ValueError)"

definition hstack :: "'a matrix list \<Rightarrow> py_error + 'a matrix" where
  "hstack ms =
     (case ms of
        [] \<Rightarrow> Inl ValueError
      | m # _ \<Rightarrow>
          if list_all (\<lambda>x. nrows x = nrows m) ms
          then Inr (Matrix (sum_list (map ncols ms))
                      (map (\<lambda>r. concat (map (\<lambda>x. rows x ! r) ms)) [0..<nrows m]))
          else Inl ValueError)"

section \<open>splitter.py: the tilers\<close>

text \<open>
  \<open>split_matrix_into_chunks(matrix,H,W)\<close> and \<open>split_shape_into_chunks(shape,H,W)\<close>
  run the same two loops. \<open>column_groups\<close> is the first one, which cuts the columns
  into the list \<open>out\<close>; \<open>row_groups\<close> is the body of the second one, which cuts the
  rows of one element of \<open>out\<close> into \<open>out_col\<close>.
\<close>

definition column_groups :: "'a matrix \<Rightarrow> int \<Rightarrow> py_error + 'a matrix list" where
  "column_groups matrix W =
     (if int (ncols matrix) > W
      then (if W = 0 then Inl ZeroDivisionError
            else Inr (map (\<lambda>i. col_slice matrix (W * i) (W * i + W))
                        (py_range (ceil_reps (int (ncols matrix)) W))))
      else Inr [matrix])"

definition row_groups :: "int \<Rightarrow> 'a matrix \<Rightarrow> py_error + 'a matrix list" where
  "row_groups H mat =
     (if int (nrows mat) > H
      then (if H = 0 then Inl ZeroDivisionError
            else Inr (map (\<lambda>i. row_slice mat (H * i) (H * i + H))
                        (py_range (ceil_reps (int (nrows mat)) H))))
      else Inr [mat])"

definition split_matrix_into_chunks ::
  "'a matrix \<Rightarrow> int \<Rightarrow> int \<Rightarrow> py_error + 'a matrix list list" where
  "split_matrix_into_chunks matrix H W =
     (case column_groups matrix W of
        Inl e \<Rightarrow> Inl e
      | Inr out \<Rightarrow> for_each (row_groups H) out)"

text \<open>
  \<open>split_shape_into_chunks\<close> works on \<open>np.empty(shape)\<close>, of which only the shape is
  read; the cells of that array are modelled as \<open>()\<close>. It returns the shape of every
  chunk.
\<close>

definition np_empty :: "nat \<times> nat \<Rightarrow> unit matrix" where
  "np_empty s = Matrix (snd s) (replicate (fst s) (replicate (snd s) ()))"

definition split_shape_into_chunks ::
  "nat \<times> nat \<Rightarrow> int \<Rightarrow> int \<Rightarrow> py_error + (nat \<times> nat) list list" where
  "split_shape_into_chunks shp H W =
     (let matrix = np_empty shp in
      case column_groups matrix W of
        Inl e \<Rightarrow> Inl e
      | Inr out \<Rightarrow>
          (case for_each (row_groups H) out of
             Inl e \<Rightarrow> Inl e
           | Inr out2 \<Rightarrow> Inr (map (map shape) out2)))"

text \<open>
  \<open>split_vector_into_chunks(vector,W)\<close>. A bias is a one-dimensional array or a
  zero-dimensional one (a scalar), which the source first expands to length 1.
\<close>

datatype 'a ndvec = Scalar 'a | Vec "'a list"

text \<open>
  \<open>list(zip_longest(*(iter(vector),)*W))\<close>: \<open>W\<close> references to one iterator, so every
  tuple takes the next \<open>W\<close> elements, the last one filled up with \<open>None\<close>. A tuple
  repeated \<open>W \<le> 0\<close> times is empty, and \<open>zip_longest()\<close> yields nothing.
\<close>

function zip_longest_shared :: "nat \<Rightarrow> 'a list \<Rightarrow> 'a option list list" where
  "zip_longest_shared W xs =
     (if W = 0 \<or> xs = [] then []
      else (map Some (take W xs) @ replicate (W - length (take W xs)) None)
             # zip_longest_shared W (drop W xs))"
  by pat_completeness auto
termination
  by (relation "measure (\<lambda>(W, xs). length xs)") auto

definition split_vector_into_chunks :: "'a ndvec \<Rightarrow> int \<Rightarrow> 'a list list" where
  "split_vector_into_chunks v W =
     (let vector = (case v of Scalar x \<Rightarrow> [x] | Vec xs \<Rightarrow> xs);
          b = zip_longest_shared (nat W) vector;
          d = map (\<lambda>i. map the (filter (\<lambda>x. x \<noteq> None) i)) b
      in d)"

declare zip_longest_shared.simps [simp del]

text \<open>The list \<open>d\<close> of \<open>split_vector_into_chunks\<close>, for a vector given as a list.\<close>

definition unpadded :: "nat \<Rightarrow> 'a list \<Rightarrow> 'a list list" where
  "unpadded W xs = map (\<lambda>i. map the (filter (\<lambda>x. x \<noteq> None) i)) (zip_longest_shared W xs)"

text \<open>
  A convolution kernel, laid out \<open>(out_channels, in_channels, kH, kW)\<close>: its shape and
  its weights, indexed in that order. \<open>channel_slice k a b\<close> is \<open>kernel[:, a:b]\<close>.
\<close>

datatype 'a kernel =
  Kernel (out_channels: nat) (in_channels: nat) (kernel_h: nat) (kernel_w: nat)
         (weights: "'a list list list list")

definition channel_slice :: "'a kernel \<Rightarrow> int \<Rightarrow> int \<Rightarrow> 'a kernel" where
  "channel_slice k a b =
     Kernel (out_channels k)
            (slice_index b (in_channels k) - slice_index a (in_channels k))
            (kernel_h k) (kernel_w k)
            (map (py_slice a b) (weights k))"

text \<open>
  \<open>split_kernel_into_channels(kernel,C)\<close>: \<open>subkernels\<close> starts empty and is filled
  only under \<open>kernel.shape[1] > C\<close>; the source has no \<open>else\<close> branch.
\<close>

definition split_kernel_into_channels :: "'a kernel \<Rightarrow> int \<Rightarrow> py_error + 'a kernel list" where
  "split_kernel_into_channels kern C =
     (if int (in_channels kern) > C
      then (if C = 0 then Inl ZeroDivisionError
            else Inr (map (\<lambda>i. channel_slice kern (C * i) (C * i + C))
                        (py_range (ceil_reps (int (in_channels kern)) C))))
      else Inr [])"

text \<open>
  Putting a chunk grid back together: the row groups of every column group stacked
  vertically, then the column groups side by side.
\<close>

definition reassemble :: "'a matrix list list \<Rightarrow> py_error + 'a matrix" where
  "reassemble grid =
     (case for_each vstack grid of Inl e \<Rightarrow> Inl e | Inr cols \<Rightarrow> hstack cols)"

section \<open>compute.py: window lowering\<close>

text \<open>
  An array keeps its element type: a value written into it is converted to that type.
  A value the type holds is stored as it is; what happens to any other value (numpy
  has wrapped such values around, and has refused them with \<open>OverflowError\<close>) belongs
  to the element type, which is therefore given by its conversion.
\<close>

datatype 'a dtype = Dtype (astype: "'a \<Rightarrow> py_error + 'a")

text \<open>
  A three-dimensional numpy array: its element type, its shape and its cells, indexed
  in the order of the axes. \<open>wf_tensor\<close> says that the cells fill the shape.
\<close>

datatype 'a tensor3 =
  Tensor3 (dtype: "'a dtype") (dim0: nat) (dim1: nat) (dim2: nat) (cells: "'a list list list")

definition wf_tensor :: "'a tensor3 \<Rightarrow> bool" where
  "wf_tensor t \<longleftrightarrow>
     length (cells t) = dim0 t
     \<and> list_all (\<lambda>p. length p = dim1 t \<and> list_all (\<lambda>r. length r = dim2 t) p) (cells t)"

text \<open>\<open>a.transpose(1,2,0)\<close> and \<open>a.transpose(2,0,1)\<close>, and \<open>a.flatten()\<close> in C order.\<close>

definition transpose_120 :: "'a tensor3 \<Rightarrow> 'a tensor3" where
  "transpose_120 t =
     Tensor3 (dtype t) (dim1 t) (dim2 t) (dim0 t)
       (map (\<lambda>i. map (\<lambda>j. map (\<lambda>k. cells t ! k ! i ! j) [0..<dim0 t]) [0..<dim2 t])
          [0..<dim1 t])"

definition transpose_201 :: "'a tensor3 \<Rightarrow> 'a tensor3" where
  "transpose_201 t =
     Tensor3 (dtype t) (dim2 t) (dim0 t) (dim1 t)
       (map (\<lambda>k. map (\<lambda>i. map (\<lambda>j. cells t ! i ! j ! k) [0..<dim1 t]) [0..<dim0 t])
          [0..<dim2 t])"

definition flatten3 :: "'a tensor3 \<Rightarrow> 'a list" where
  "flatten3 t = concat (map concat (cells t))"

text \<open>
  \<open>np.pad(tensor,((1,1),(1,1),(0,0)), mode='constant', constant_values=zero_point)\<close>:
  the result has the element type of \<open>tensor\<close>, so \<open>zero_point\<close> is converted to it, and
  one row and one column of the converted value go on each side of the first two axes.
  \<open>pad_with\<close> lays out the padding for a value of the element type.
\<close>

definition pad_with :: "'a \<Rightarrow> 'a tensor3 \<Rightarrow> 'a tensor3" where
  "pad_with z t =
     (let zc = replicate (dim2 t) z;
          blank = replicate (dim1 t + 2) zc
      in Tensor3 (dtype t) (dim0 t + 2) (dim1 t + 2) (dim2 t)
           ([blank] @ map (\<lambda>row. [zc] @ row @ [zc]) (cells t) @ [blank]))"

definition pad_hw :: "'a \<Rightarrow> 'a tensor3 \<Rightarrow> py_error + 'a tensor3" where
  "pad_hw zero_point t =
     (case astype (dtype t) zero_point of
        Inl e \<Rightarrow> Inl e
      | Inr z \<Rightarrow> Inr (pad_with z t))"

text \<open>\<open>matrix[r:r+3,c:c+3]\<close> on a three-dimensional array.\<close>

definition window3 :: "'a tensor3 \<Rightarrow> nat \<Rightarrow> nat \<Rightarrow> 'a tensor3" where
  "window3 t r c =
     Tensor3 (dtype t)
             (slice_index (int r + 3) (dim0 t) - slice_index (int r) (dim0 t))
             (slice_index (int c + 3) (dim1 t) - slice_index (int c) (dim1 t))
             (dim2 t)
             (map (py_slice (int c) (int c + 3)) (py_slice (int r) (int r + 3) (cells t)))"

text \<open>
  What \<open>get_recfield_for_pixel(r,c,matrix,ksize)\<close> returns: the channel vector
  \<open>matrix[r,c]\<close> for kernel size 1, the transposed 3x3 window for kernel size 3, and
  \<open>None\<close> for any other kernel size, where the function falls off its end.
\<close>

datatype 'a recfield = Field1 "'a list" | Field3 "'a tensor3" | NoField

definition get_recfield_for_pixel ::
  "nat \<Rightarrow> nat \<Rightarrow> 'a tensor3 \<Rightarrow> int \<Rightarrow> py_error + 'a recfield" where
  "get_recfield_for_pixel r c mat ksize =
     (if ksize = 1
      then (if r < dim0 mat \<and> c < dim1 mat then Inr (Field1 (cells mat ! r ! c))
            else Inl IndexError)
      else if ksize = 3 then Inr (Field3 (transpose_201 (window3 mat r c)))
      else Inr NoField)"

text \<open>
  The methods the loop body calls on the receptive field. \<open>None\<close> has neither; a
  one-dimensional array cannot be transposed along three axes.
\<close>

definition recfield_flatten :: "'a recfield \<Rightarrow> py_error + 'a list" where
  "recfield_flatten f =
     (case f of Field1 v \<Rightarrow> Inr v | Field3 t \<Rightarrow> Inr (flatten3 t) | NoField \<Rightarrow> Inl AttributeError)"

definition recfield_transpose_120 :: "'a recfield \<Rightarrow> py_error + 'a recfield" where
  "recfield_transpose_120 f =
     (case f of
        Field1 v \<Rightarrow> Inl ValueError
      | Field3 t \<Rightarrow> Inr (Field3 (transpose_120 t))
      | NoField \<Rightarrow> Inl AttributeError)"

text \<open>
  \<open>out[k] = v\<close> on a row of \<open>width\<close> cells: \<open>v\<close> has that length, or it has length 1 and
  is broadcast, or numpy refuses the assignment.
\<close>

definition assign_row :: "nat \<Rightarrow> 'a list \<Rightarrow> py_error + 'a list" where
  "assign_row width v =
     (if length v = width then Inr v
      else if length v = 1 then Inr (replicate width (hd v))
      else Inl ValueError)"

text \<open>
  \<open>toeplitzize_input(in_tensor,ksize,strides,channel_minor,zero_point)\<close>. The stride is
  a count. The two loops assign row \<open>r*W + c\<close> of \<open>out\<close> for \<open>r\<close> in \<open>range(H)\<close> and \<open>c\<close>
  in \<open>range(W)\<close>, that is, every row once and in increasing order, so \<open>out\<close> is the
  list of the assigned rows in the order of the loop nest, which \<open>pixels\<close> enumerates.
  \<open>out\<close> has the element type of the tensor, as the rows written into it have.
\<close>

definition toeplitz_row ::
  "'a tensor3 \<Rightarrow> int \<Rightarrow> nat \<Rightarrow> bool \<Rightarrow> nat \<Rightarrow> nat \<times> nat \<Rightarrow> py_error + 'a list" where
  "toeplitz_row tensor2 ksize strides channel_minor width px =
     (case get_recfield_for_pixel (strides * fst px) (strides * snd px) tensor2 ksize of
        Inl e \<Rightarrow> Inl e
      | Inr recfield \<Rightarrow>
          (case (if channel_minor \<and> ksize = 3
                 then (case recfield_transpose_120 recfield of
                         Inl e \<Rightarrow> Inl e
                       | Inr f \<Rightarrow> recfield_flatten f)
                 else recfield_flatten recfield) of
             Inl e \<Rightarrow> Inl e
           | Inr v \<Rightarrow> assign_row width v))"

definition pixels :: "nat \<Rightarrow> nat \<Rightarrow> (nat \<times> nat) list" where
  "pixels H W = concat (map (\<lambda>r. map (\<lambda>c. (r, c)) [0..<W]) [0..<H])"

definition toeplitzize_input ::
  "'a tensor3 \<Rightarrow> int \<Rightarrow> nat \<Rightarrow> bool \<Rightarrow> 'a \<Rightarrow> py_error + 'a matrix" where
  "toeplitzize_input in_tensor ksize strides channel_minor zero_point =
     (let tensor = transpose_120 in_tensor in
      if strides = 0 then Inl ZeroDivisionError
      else
        let H = dim0 tensor div strides;
            W = dim1 tensor div strides;
            C = dim2 tensor
        in (case (if ksize = 3 then pad_hw zero_point tensor else Inr tensor) of
              Inl e \<Rightarrow> Inl e
            | Inr tensor2 \<Rightarrow>
                let width = (if ksize = 3 then C * 9 else C)
                in (case for_each (toeplitz_row tensor2 ksize strides channel_minor width)
                           (pixels H W) of
                      Inl e \<Rightarrow> Inl e
                    | Inr out \<Rightarrow> Inr (Matrix width out))))"

text \<open>
  The padded input at row \<open>i\<close>, column \<open>j\<close> and channel \<open>k\<close>, read off the tensor
  \<open>in_tensor\<close> as it is passed (channel, height, width): \<open>zero_point\<close> on the border.
  The receptive field of output pixel \<open>(r, c)\<close> as one row, channels outermost, and
  the same with channels innermost.
\<close>

definition padded_at :: "'a \<Rightarrow> 'a tensor3 \<Rightarrow> nat \<Rightarrow> nat \<Rightarrow> nat \<Rightarrow> 'a" where
  "padded_at zero_point t i j k =
     (if 1 \<le> i \<and> i \<le> dim1 t \<and> 1 \<le> j \<and> j \<le> dim2 t
      then cells t ! k ! (i - 1) ! (j - 1) else zero_point)"

definition receptive_row :: "'a \<Rightarrow> 'a tensor3 \<Rightarrow> nat \<Rightarrow> nat \<times> nat \<Rightarrow> 'a list" where
  "receptive_row zero_point t s px =
     concat (map (\<lambda>k. concat (map (\<lambda>dy. map (\<lambda>dx.
         padded_at zero_point t (s * fst px + dy) (s * snd px + dx) k)
       [0..<3]) [0..<3])) [0..<dim0 t])"

definition receptive_row_minor :: "'a \<Rightarrow> 'a tensor3 \<Rightarrow> nat \<Rightarrow> nat \<times> nat \<Rightarrow> 'a list" where
  "receptive_row_minor zero_point t s px =
     concat (map (\<lambda>dy. concat (map (\<lambda>dx. map (\<lambda>k.
         padded_at zero_point t (s * fst px + dy) (s * snd px + dx) k)
       [0..<dim0 t]) [0..<3])) [0..<3])"

text \<open>
  Two element types of bytes: an unsigned one that wraps a value around, and a signed
  one that refuses a value outside its range. Concrete tensors: one channel of 2x2
  pixels in either type, and a single pixel.
\<close>

definition uint8_wrap :: "int dtype" where
  "uint8_wrap = Dtype (\<lambda>v. Inr (v mod 256))"

definition int8_raise :: "int dtype" where
  "int8_raise = Dtype (\<lambda>v. if - 128 \<le> v \<and> v \<le> 127 then Inr v else Inl OverflowError)"

definition tensor_1x2x2 :: "int tensor3" where
  "tensor_1x2x2 = Tensor3 uint8_wrap 1 2 2 [[[1, 2], [3, 4]]]"

definition tensor_int8_1x2x2 :: "int tensor3" where
  "tensor_int8_1x2x2 = Tensor3 int8_raise 1 2 2 [[[1, 2], [3, 4]]]"

definition tensor_1x1x1 :: "int tensor3" where
  "tensor_1x1x1 = Tensor3 uint8_wrap 1 1 1 [[[5]]]"

section \<open>Graph nodes\<close>

text \<open>
  Modelled from the spec: the node classes of the \<open>cnodes\<close> module, which the emitters
  import and which is not among the sources. The spec's data model gives every node an
  ordered list of input edge identifiers, an ordered list of output edge identifiers, a
  provenance tag \<open>from_type\<close> set by the emitter, and operator-specific fields: weight
  matrix, optional bias vector, kernel, kernel size, stride and slice bounds. A node is
  a Python object, so the emitters may set any attribute on any node; the record keeps
  one optional field for each attribute the emitters read or write, \<open>None\<close> when it was
  never set. The constructors take the arguments the emitters pass them.
\<close>

datatype node_kind =
  Toeplitzizer | Slicer | Gemm | Add | Cat | Reshaper | Conv | Dwc | Channel_slicing

record 'a node =
  kind :: node_kind
  inputs :: "string list"
  outputs :: "string list"
  from_type :: "string option"
  matrix :: "'a matrix option"
  biases :: "'a ndvec option"
  kernel_tensor :: "'a kernel option"
  ksize :: "nat option"
  strides :: "int option"
  col_lim :: "(int \<times> int) option"
  axis :: "int option"
  channels :: "nat option"

definition new_node :: "node_kind \<Rightarrow> string list \<Rightarrow> string list \<Rightarrow> 'a node" where
  "new_node k ins outs =
     \<lparr>kind = k, inputs = ins, outputs = outs, from_type = None, matrix = None,
      biases = None, kernel_tensor = None, ksize = None, strides = None, col_lim = None,
      axis = None, channels = None\<rparr>"

definition slicer_node :: "string list \<Rightarrow> string list \<Rightarrow> int \<times> int \<Rightarrow> 'a node" where
  "slicer_node ins outs lim = (new_node Slicer ins outs)\<lparr>col_lim := Some lim\<rparr>"

definition gemm_node :: "string list \<Rightarrow> string list \<Rightarrow> 'a matrix \<Rightarrow> 'a node" where
  "gemm_node ins outs m = (new_node Gemm ins outs)\<lparr>matrix := Some m\<rparr>"

definition add_node :: "string list \<Rightarrow> string list \<Rightarrow> 'a node" where
  "add_node ins outs = new_node Add ins outs"

definition cat_node :: "string list \<Rightarrow> string list \<Rightarrow> int \<Rightarrow> 'a node" where
  "cat_node ins outs ax = (new_node Cat ins outs)\<lparr>axis := Some ax\<rparr>"

definition toeplitzizer_node ::
  "string list \<Rightarrow> string list \<Rightarrow> nat \<Rightarrow> int option \<Rightarrow> 'a node" where
  "toeplitzizer_node ins outs ks st =
     (new_node Toeplitzizer ins outs)\<lparr>ksize := Some ks, strides := st\<rparr>"

definition reshaper_node :: "string list \<Rightarrow> string list \<Rightarrow> nat \<Rightarrow> 'a node" where
  "reshaper_node ins outs c = (new_node Reshaper ins outs)\<lparr>channels := Some c\<rparr>"

section \<open>splitter.py: the subgraph emitters\<close>

text \<open>An index in an f-string: the decimal digits of a natural number.\<close>

definition digit_char :: "nat \<Rightarrow> char" where
  "digit_char d = ''0123456789'' ! d"

fun str_nat :: "nat \<Rightarrow> string" where
  "str_nat n = (if n < 10 then [digit_char n] else str_nat (n div 10) @ [digit_char (n mod 10)])"

declare str_nat.simps [simp del]

text \<open>The identifiers of the generated edges, from \<open>cnode.outputs[0]\<close>.\<close>

definition tplitz_edge :: "string \<Rightarrow> string" where
  "tplitz_edge o0 = o0 @ ''_tplitz''"

definition slicer_edge :: "string \<Rightarrow> nat \<Rightarrow> nat \<Rightarrow> string" where
  "slicer_edge o0 i j = o0 @ ''_slicer_'' @ str_nat i @ ''-'' @ str_nat j"

definition gemm_edge :: "string \<Rightarrow> nat \<Rightarrow> nat \<Rightarrow> string" where
  "gemm_edge o0 i j = o0 @ ''_gemm_'' @ str_nat i @ ''-'' @ str_nat j"

definition adder_edge :: "string \<Rightarrow> nat \<Rightarrow> string" where
  "adder_edge o0 i = o0 @ ''_adder_'' @ str_nat i"

definition cat_edge :: "string \<Rightarrow> string" where
  "cat_edge o0 = o0 @ ''_cat''"

text \<open>
  The inner loop \<open>for j,matrix in enumerate(col)\<close>, the same text in
  \<open>split_gemm_into_chunks\<close> and \<open>split_conv_into_chunks\<close> but for the slicer's inputs
  (\<open>cnode.inputs\<close> in the first, the Toeplitz edge in the second). It appends a slicer
  and a gemm node to \<open>nodes\<close> and the gemm's output edge to \<open>adder_inputs\<close>.
  \<open>cnode.outputs[0]\<close> raises when the node has no output.
\<close>

fun chunk_loop ::
  "string list \<Rightarrow> 'a node \<Rightarrow> int \<Rightarrow> nat \<Rightarrow> nat \<Rightarrow> 'a matrix list \<Rightarrow>
   'a node list \<Rightarrow> string list \<Rightarrow> py_error + 'a node list \<times> string list" where
  "chunk_loop slicer_inputs cnode H i j [] nodes adder_inputs = Inr (nodes, adder_inputs)"
| "chunk_loop slicer_inputs cnode H i j (mat # col) nodes adder_inputs =
     (case outputs cnode of
        [] \<Rightarrow> Inl IndexError
      | o0 # _ \<Rightarrow>
          let input_cols = (H * int j, H * int j + H);
              slicer_output_edge = slicer_edge o0 i j;
              slicer = slicer_node slicer_inputs [slicer_output_edge] input_cols;
              gemm_output_edge = gemm_edge o0 i j;
              gemm = gemm_node [slicer_output_edge] [gemm_output_edge] mat
          in chunk_loop slicer_inputs cnode H i (Suc j) col
               (nodes @ [slicer, gemm]) (adder_inputs @ [gemm_output_edge]))"

text \<open>\<open>nodes[-1].biases = b\<close>: the last node of the list gets the attribute.\<close>

definition set_last_biases :: "'a node list \<Rightarrow> 'a list \<Rightarrow> 'a node list" where
  "set_last_biases nodes b = butlast nodes @ [(last nodes)\<lparr>biases := Some (Vec b)\<rparr>]"

text \<open>
  The outer loop \<open>for i,col in enumerate(submatrices)\<close> of \<open>split_gemm_into_chunks\<close>:
  the chunks of the column group, the bias on the last node, then always an add node.
\<close>

fun gemm_columns ::
  "'a node \<Rightarrow> int \<Rightarrow> 'a list list \<Rightarrow> nat \<Rightarrow> 'a matrix list list \<Rightarrow>
   'a node list \<Rightarrow> string list \<Rightarrow> py_error + 'a node list \<times> string list" where
  "gemm_columns cnode H subbiases i [] nodes cat_inputs = Inr (nodes, cat_inputs)"
| "gemm_columns cnode H subbiases i (col # rest) nodes cat_inputs =
     (case chunk_loop (inputs cnode) cnode H i 0 col nodes [] of
        Inl e \<Rightarrow> Inl e
      | Inr (nodes1, adder_inputs) \<Rightarrow>
          if length subbiases \<le> i then Inl IndexError
          else if nodes1 = [] then Inl IndexError
          else (case outputs cnode of
                  [] \<Rightarrow> Inl IndexError
                | o0 # _ \<Rightarrow>
                    let nodes2 = set_last_biases nodes1 (subbiases ! i);
                        adder_output_edge = adder_edge o0 i;
                        adder = add_node adder_inputs [adder_output_edge]
                    in gemm_columns cnode H subbiases (Suc i) rest
                         (nodes2 @ [adder]) (cat_inputs @ [adder_output_edge])))"

definition split_gemm_into_chunks ::
  "'a node \<Rightarrow> int \<Rightarrow> int \<Rightarrow> py_error + 'a node list" where
  "split_gemm_into_chunks cnode H W =
     (case matrix cnode of
        None \<Rightarrow> Inl AttributeError
      | Some m \<Rightarrow>
     (case split_matrix_into_chunks m H W of
        Inl e \<Rightarrow> Inl e
      | Inr submatrices \<Rightarrow>
     (case biases cnode of
        None \<Rightarrow> Inl AttributeError
      | Some b \<Rightarrow>
          let subbiases = split_vector_into_chunks b W in
          if length submatrices = 1 \<and> length (hd submatrices) = 1 then Inr [cnode]
          else (case gemm_columns cnode H subbiases 0 submatrices [] [] of
                  Inl e \<Rightarrow> Inl e
                | Inr (nodes, cat_inputs) \<Rightarrow>
                    let cat = cat_node cat_inputs (outputs cnode) 0
                    in Inr (map (\<lambda>n. n\<lparr>from_type := Some ''gemm''\<rparr>) (nodes @ [cat]))))))"

text \<open>
  The outer loop of \<open>split_conv_into_chunks\<close>: as above, but the add node is emitted
  only under \<open>len(adder_inputs) > 1\<close>; otherwise the gemm outputs go to the
  concatenation directly.
\<close>

fun conv_columns ::
  "string \<Rightarrow> 'a node \<Rightarrow> int \<Rightarrow> 'a list list \<Rightarrow> nat \<Rightarrow> 'a matrix list list \<Rightarrow>
   'a node list \<Rightarrow> string list \<Rightarrow> py_error + 'a node list \<times> string list" where
  "conv_columns tplitz_output_edge cnode H subbiases i [] nodes cat_inputs =
     Inr (nodes, cat_inputs)"
| "conv_columns tplitz_output_edge cnode H subbiases i (col # rest) nodes cat_inputs =
     (case chunk_loop [tplitz_output_edge] cnode H i 0 col nodes [] of
        Inl e \<Rightarrow> Inl e
      | Inr (nodes1, adder_inputs) \<Rightarrow>
          if length subbiases \<le> i then Inl IndexError
          else if nodes1 = [] then Inl IndexError
          else
            let nodes2 = set_last_biases nodes1 (subbiases ! i) in
            if length adder_inputs > 1
            then (case outputs cnode of
                    [] \<Rightarrow> Inl IndexError
                  | o0 # _ \<Rightarrow>
                      let adder_output_edge = adder_edge o0 i;
                          adder = add_node adder_inputs [adder_output_edge]
                      in conv_columns tplitz_output_edge cnode H subbiases (Suc i) rest
                           (nodes2 @ [adder]) (cat_inputs @ [adder_output_edge]))
            else conv_columns tplitz_output_edge cnode H subbiases (Suc i) rest
                   nodes2 (cat_inputs @ adder_inputs))"

definition conv_tag :: "nat \<Rightarrow> string" where
  "conv_tag ks = (if ks = 1 then ''pointwise'' else ''conv'')"

definition split_conv_into_chunks ::
  "'a node \<Rightarrow> int \<Rightarrow> int \<Rightarrow> py_error + 'a node list" where
  "split_conv_into_chunks cnode H W =
     (case matrix cnode of
        None \<Rightarrow> Inl AttributeError
      | Some m \<Rightarrow>
     (case split_matrix_into_chunks m H W of
        Inl e \<Rightarrow> Inl e
      | Inr submatrices \<Rightarrow>
     (case biases cnode of
        None \<Rightarrow> Inl AttributeError
      | Some b \<Rightarrow>
     (case kernel_tensor cnode of
        None \<Rightarrow> Inl AttributeError
      | Some k \<Rightarrow>
          let subbiases = split_vector_into_chunks b W;
              ks = kernel_w k;
              st = strides cnode
          in
          if length submatrices = 1 \<and> length (hd submatrices) = 1
          then Inr [cnode\<lparr>from_type := Some (conv_tag ks)\<rparr>]
          else (case outputs cnode of
                  [] \<Rightarrow> Inl IndexError
                | o0 # _ \<Rightarrow>
                    let tplitz_output_edge = tplitz_edge o0;
                        tplitz_node = toeplitzizer_node (inputs cnode) [tplitz_output_edge] ks st
                    in (case conv_columns tplitz_output_edge cnode H subbiases 0 submatrices
                               [tplitz_node] [] of
                          Inl e \<Rightarrow> Inl e
                        | Inr (nodes, cat_inputs) \<Rightarrow>
                            let cat_output_edge = cat_edge o0;
                                cat = cat_node cat_inputs [cat_output_edge] (- 1);
                                C = ncols m;
                                output_tensorizer =
                                  reshaper_node [cat_output_edge] (outputs cnode) C
                            in Inr (map (\<lambda>n. n\<lparr>from_type := Some (conv_tag ks)\<rparr>)
                                      (nodes @ [cat, output_tensorizer]))))))))"

section \<open>Properties of emitted subgraphs\<close>

text \<open>
  The digits of a decimal numeral and the number it denotes.
\<close>

definition is_digit :: "char \<Rightarrow> bool" where
  "is_digit ch \<longleftrightarrow> ch \<in> set ''0123456789''"

definition decimal_value :: "string \<Rightarrow> nat" where
  "decimal_value cs = foldl (\<lambda>acc ch. 10 * acc + (of_char ch - 48)) 0 cs"

text \<open>
  The wiring of a node: its kind, its input and output edge identifiers, its weight
  matrix and its slice bounds. What the emitters are expected to wire, written with
  the identifiers spelled out from the primary output identifier \<open>o0\<close>, the role and
  the indices of the chunk: for chunk \<open>(i, j)\<close> a slicer from the input to
  \<open>o0_slicer_i-j\<close> with bounds \<open>[H*j, H*j+H]\<close> and a gemm node from there to
  \<open>o0_gemm_i-j\<close> with the chunk as its matrix; for column group \<open>i\<close> an add node from
  the gemm outputs of the group to \<open>o0_adder_i\<close>, which the convolution emitter leaves
  out for a group of at most one chunk.
\<close>

type_synonym 'a wiring =
  "node_kind \<times> string list \<times> string list \<times> 'a matrix option \<times> (int \<times> int) option"

definition wire :: "'a node \<Rightarrow> 'a wiring" where
  "wire n = (kind n, inputs n, outputs n, matrix n, col_lim n)"

definition chunk_wiring ::
  "string list \<Rightarrow> string \<Rightarrow> int \<Rightarrow> nat \<Rightarrow> nat \<Rightarrow> 'a matrix list \<Rightarrow> 'a wiring list" where
  "chunk_wiring slicer_inputs o0 H i j0 col =
     concat (map (\<lambda>(j, mat).
        [(Slicer, slicer_inputs, [o0 @ ''_slicer_'' @ str_nat i @ ''-'' @ str_nat j],
          None, Some (H * int j, H * int j + H)),
         (Gemm, [o0 @ ''_slicer_'' @ str_nat i @ ''-'' @ str_nat j],
          [o0 @ ''_gemm_'' @ str_nat i @ ''-'' @ str_nat j], Some mat, None)])
       (enumerate j0 col))"

definition gemm_outputs :: "string \<Rightarrow> nat \<Rightarrow> nat \<Rightarrow> nat \<Rightarrow> string list" where
  "gemm_outputs o0 i j0 n = map (\<lambda>j. o0 @ ''_gemm_'' @ str_nat i @ ''-'' @ str_nat j) [j0..<j0 + n]"

definition gemm_wiring ::
  "string list \<Rightarrow> string \<Rightarrow> int \<Rightarrow> nat \<Rightarrow> 'a matrix list list \<Rightarrow> 'a wiring list" where
  "gemm_wiring ins o0 H i0 grid =
     concat (map (\<lambda>(i, col).
        chunk_wiring ins o0 H i 0 col
        @ [(Add, gemm_outputs o0 i 0 (length col), [o0 @ ''_adder_'' @ str_nat i], None, None)])
       (enumerate i0 grid))"

definition conv_wiring ::
  "string \<Rightarrow> int \<Rightarrow> nat \<Rightarrow> 'a matrix list list \<Rightarrow> 'a wiring list" where
  "conv_wiring o0 H i0 grid =
     concat (map (\<lambda>(i, col).
        chunk_wiring [o0 @ ''_tplitz''] o0 H i 0 col
        @ (if length col > 1
           then [(Add, gemm_outputs o0 i 0 (length col), [o0 @ ''_adder_'' @ str_nat i], None, None)]
           else []))
       (enumerate i0 grid))"

definition conv_cat_inputs :: "string \<Rightarrow> nat \<Rightarrow> 'a list list \<Rightarrow> string list" where
  "conv_cat_inputs o0 i0 grid =
     concat (map (\<lambda>(i, col).
        if length col > 1 then [o0 @ ''_adder_'' @ str_nat i]
        else gemm_outputs o0 i 0 (length col)) (enumerate i0 grid))"

text \<open>
  The biases of the gemm nodes of a node list, in emission order, and what they are
  when every column group carries its bias chunk on its last gemm node and nowhere
  else: for column group \<open>i\<close> with \<open>n\<close> row groups, \<open>n - 1\<close> times no bias, then chunk
  \<open>i\<close> of the bias.
\<close>

definition matmul_biases :: "'a node list \<Rightarrow> 'a ndvec option list" where
  "matmul_biases nodes = map biases (filter (\<lambda>n. kind n = Gemm) nodes)"


text \<open>
  Concrete nodes: a GEMM node with a 4x10 weight matrix and a bias of length 10, the
  same node as its constructor leaves it, without a bias, and a pointwise convolution
  node with a 3x2 matrix and a bias of length 2.
\<close>

definition weights_4x10 :: "int matrix" where
  "weights_4x10 =
     Matrix 10 (map (\<lambda>r. map (\<lambda>c. 10 * r + c) [0, 1, 2, 3, 4, 5, 6, 7, 8, 9]) [0, 1, 2, 3])"

definition gemm_4x10 :: "int node" where
  "gemm_4x10 =
     (gemm_node [''x''] [''y''] weights_4x10)
     \<lparr>biases := Some (Vec [0, 1, 2, 3, 4, 5, 6, 7, 8, 9])\<rparr>"

definition gemm_4x10_no_bias :: "int node" where
  "gemm_4x10_no_bias = gemm_node [''x''] [''y''] weights_4x10"

definition conv_3x2 :: "int node" where
  "conv_3x2 =
     (new_node Conv [''x''] [''y''])
     \<lparr>matrix := Some (Matrix 2 [[1, 2], [3, 4], [5, 6]]),
      biases := Some (Vec [10, 20]),
      kernel_tensor := Some (Kernel 2 3 1 1 [[[[1]], [[3]], [[5]]], [[[2]], [[4]], [[6]]]]),
      strides := Some 1\<rparr>"

section \<open>Slices that tile a list\<close>

lemma slice_index_nat [simp]: "slice_index (int a) n = min a n"
  by (simp add: slice_index_def)

lemma py_slice_nat:
  "py_slice (int a) (int (a + k)) xs = take k (drop a xs)"
proof (cases "a \<le> length xs")
  case True
  then show ?thesis
    unfolding py_slice_def Let_def slice_index_nat
    by (auto simp: min_def)
next
  case False
  then show ?thesis
    unfolding py_slice_def Let_def slice_index_nat
    by (simp add: min_def)
qed

lemma py_slice_chunk:
  "py_slice (int k * int i) (int k * int i + int k) xs = take k (drop (k * i) xs)"
  using py_slice_nat [of "k * i" k xs] by simp

lemma concat_chunks:
  "concat (map (\<lambda>i. take k (drop (k * i) xs)) [0..<m]) = take (k * m) xs"
proof (induction m)
  case 0
  show ?case by simp
next
  case (Suc m)
  have "take (k * m) xs @ take k (drop (k * m) xs) = take (k * m + k) xs"
    by (simp add: take_add)
  with Suc show ?case by (simp add: add.commute)
qed

lemma ceil_reps_covers:
  assumes "1 \<le> L" "0 \<le> n"
  shows "n \<le> L * ceil_reps n L" and "0 \<le> ceil_reps n L"
proof -
  have m: "n \<le> L * (n div L) + n mod L" by simp
  have r: "n mod L < L" using assms by simp
  have d: "0 \<le> n div L" using assms by (simp add: pos_imp_zdiv_nonneg_iff)
  show "n \<le> L * ceil_reps n L"
  proof (cases "n mod L = 0")
    case True
    with m show ?thesis by (simp add: ceil_reps_def)
  next
    case False
    have "L * ceil_reps n L = L * (n div L) + L"
      using False by (simp add: ceil_reps_def algebra_simps)
    with m r show ?thesis by linarith
  qed
  show "0 \<le> ceil_reps n L"
    unfolding ceil_reps_def using d by simp
qed

lemma chunks_rejoin:
  assumes "1 \<le> L"
  shows "concat (map (\<lambda>i. py_slice (L * i) (L * i + L) xs)
           (py_range (ceil_reps (int (length xs)) L))) = xs"
proof -
  define k where "k = nat L"
  have k: "L = int k" "0 < k" using assms by (simp_all add: k_def)
  define m where "m = nat (ceil_reps (int (length xs)) L)"
  have cov: "length xs \<le> k * m"
  proof -
    have "int (length xs) \<le> L * ceil_reps (int (length xs)) L"
      using ceil_reps_covers(1)[OF assms, of "int (length xs)"] by simp
    moreover have "0 \<le> ceil_reps (int (length xs)) L"
      using ceil_reps_covers(2)[OF assms, of "int (length xs)"] by simp
    ultimately have "int (length xs) \<le> int (k * m)" by (simp add: k m_def)
    then show ?thesis by (simp only: of_nat_le_iff)
  qed
  have "concat (map (\<lambda>i. py_slice (L * i) (L * i + L) xs) (py_range (ceil_reps (int (length xs)) L)))
      = concat (map (\<lambda>i. take k (drop (k * i) xs)) [0..<m])"
    by (simp add: py_range_def m_def k(1) comp_def py_slice_chunk)
  also have "\<dots> = take (k * m) xs" by (rule concat_chunks)
  also have "\<dots> = xs" using cov by simp
  finally show ?thesis .
qed


lemma ceil_reps_pos:
  assumes "1 \<le> L" "1 \<le> n"
  shows "1 \<le> ceil_reps n L"
proof -
  have "n \<le> L * ceil_reps n L" using ceil_reps_covers(1)[of L n] assms by simp
  then have "0 < L * ceil_reps n L" using assms by linarith
  then have "0 < ceil_reps n L" using assms by (simp add: zero_less_mult_iff)
  then show ?thesis by simp
qed

lemma py_range_nonempty: "1 \<le> n \<Longrightarrow> py_range n \<noteq> []"
  by (simp add: py_range_def)

lemma length_py_slice:
  "length (py_slice a b xs) = slice_index b (length xs) - slice_index a (length xs)"
proof -
  have "slice_index b (length xs) \<le> length xs"
    by (auto simp: slice_index_def)
  then show ?thesis by (simp add: py_slice_def Let_def)
qed

lemma chunk_widths_sum:
  assumes "1 \<le> L"
  shows "sum_list (map (\<lambda>i. slice_index (L * i + L) n - slice_index (L * i) n)
           (py_range (ceil_reps (int n) L))) = n"
proof -
  have "length (concat (map (\<lambda>i. py_slice (L * i) (L * i + L) (replicate n ()))
           (py_range (ceil_reps (int (length (replicate n ()))) L)))) = length (replicate n ())"
    by (simp only: chunks_rejoin[OF assms])
  then show ?thesis
    by (simp add: length_concat comp_def length_py_slice)
qed

lemma for_each_map:
  "(\<And>x. x \<in> set xs \<Longrightarrow> f x = Inr (g x)) \<Longrightarrow> for_each f xs = Inr (map g xs)"
  by (induction xs) simp_all

lemma for_each_error:
  "x \<in> set xs \<Longrightarrow> (\<And>y. y \<in> set xs \<Longrightarrow> f y = Inl e) \<Longrightarrow> for_each f xs = Inl e"
  by (cases xs) simp_all

lemma vstack_row_groups:
  assumes "1 \<le> H" "1 \<le> nrows mat"
  shows "vstack (map (\<lambda>i. row_slice mat (H * i) (H * i + H))
           (py_range (ceil_reps (int (nrows mat)) H))) = Inr mat"
proof -
  let ?is = "py_range (ceil_reps (int (nrows mat)) H)"
  have ne: "?is \<noteq> []"
    using ceil_reps_pos[OF assms(1), of "int (nrows mat)"] assms(2)
    by (intro py_range_nonempty) simp
  then obtain i0 rest where iseq: "?is = i0 # rest" by (cases ?is) auto
  have rows: "concat (map (\<lambda>i. py_slice (H * i) (H * i + H) (rows mat)) ?is) = rows mat"
    using chunks_rejoin[OF assms(1), of "rows mat"] by (simp add: nrows_def)
  have "vstack (map (\<lambda>i. row_slice mat (H * i) (H * i + H)) ?is)
      = Inr (Matrix (ncols mat) (concat (map (\<lambda>i. py_slice (H * i) (H * i + H) (rows mat)) ?is)))"
    unfolding iseq by (simp add: vstack_def row_slice_def list_all_iff comp_def)
  then show ?thesis by (simp add: rows)
qed

lemma vstack_single: "vstack [mat] = Inr mat"
  by (simp add: vstack_def)

lemma hstack_single: "hstack [mat] = Inr mat"
proof -
  have "map (\<lambda>r. rows mat ! r) [0..<length (rows mat)] = rows mat" by (rule map_nth)
  then show ?thesis by (simp add: hstack_def nrows_def)
qed

lemma hstack_col_groups:
  assumes "1 \<le> W" "1 \<le> ncols M" "wf_matrix M"
  shows "hstack (map (\<lambda>i. col_slice M (W * i) (W * i + W))
           (py_range (ceil_reps (int (ncols M)) W))) = Inr M"
proof -
  let ?is = "py_range (ceil_reps (int (ncols M)) W)"
  let ?cs = "map (\<lambda>i. col_slice M (W * i) (W * i + W)) ?is"
  have ne: "?is \<noteq> []"
    using ceil_reps_pos[OF assms(1), of "int (ncols M)"] assms(2)
    by (intro py_range_nonempty) simp
  then obtain i0 rest where iseq: "?is = i0 # rest" by (cases ?is) auto
  have widths: "sum_list (map ncols ?cs) = ncols M"
    using chunk_widths_sum[OF assms(1), of "ncols M"] by (simp add: comp_def col_slice_def)
  have row: "concat (map (\<lambda>x. rows x ! r) ?cs) = rows M ! r" if "r < nrows M" for r
  proof -
    have len: "length (rows M ! r) = ncols M"
      using assms(3) that by (simp add: wf_matrix_def list_all_length nrows_def)
    have "concat (map (\<lambda>x. rows x ! r) ?cs)
        = concat (map (\<lambda>i. py_slice (W * i) (W * i + W) (rows M ! r)) ?is)"
      using that by (simp add: comp_def col_slice_def nrows_def)
    also have "\<dots> = rows M ! r"
      using chunks_rejoin[OF assms(1), of "rows M ! r"] by (simp add: len)
    finally show ?thesis .
  qed
  have "map (\<lambda>r. concat (map (\<lambda>x. rows x ! r) ?cs)) [0..<nrows M]
      = map (\<lambda>r. rows M ! r) [0..<nrows M]"
    using row by (intro map_cong refl) (simp del: map_map)
  also have "\<dots> = rows M" by (simp add: nrows_def map_nth)
  finally have data: "map (\<lambda>r. concat (map (\<lambda>x. rows x ! r) ?cs)) [0..<nrows M] = rows M" .
  have hd: "nrows (col_slice M a b) = nrows M" for a b
    by (simp add: nrows_def col_slice_def)
  have "hstack ?cs = Inr (Matrix (sum_list (map ncols ?cs))
          (map (\<lambda>r. concat (map (\<lambda>x. rows x ! r) ?cs)) [0..<nrows M]))"
    unfolding iseq by (simp add: hstack_def list_all_iff hd)
  then show ?thesis by (simp only: widths data matrix.collapse)
qed

section \<open>Tiling exactness\<close>

lemma row_groups_vstack:
  assumes "int (nrows mat) \<le> H \<or> 1 \<le> H"
  shows "\<exists>col. row_groups H mat = Inr col \<and> vstack col = Inr mat"
proof (cases "int (nrows mat) > H")
  case True
  with assms have H: "1 \<le> H" by simp
  with True have "1 \<le> nrows mat" by simp
  from vstack_row_groups[OF H this] True H show ?thesis
    by (simp add: row_groups_def)
next
  case False
  then show ?thesis by (simp add: row_groups_def vstack_single)
qed

lemma for_each_row_groups:
  assumes "\<And>mat. mat \<in> set out \<Longrightarrow> int (nrows mat) \<le> H \<or> 1 \<le> H"
  shows "\<exists>grid. for_each (row_groups H) out = Inr grid \<and> for_each vstack grid = Inr out"
  using assms
proof (induction out)
  case Nil
  show ?case by simp
next
  case (Cons mat out)
  obtain col where col: "row_groups H mat = Inr col" "vstack col = Inr mat"
    using row_groups_vstack[of mat H] Cons.prems by auto
  obtain grid where grid: "for_each (row_groups H) out = Inr grid" "for_each vstack grid = Inr out"
    using Cons by auto
  show ?case by (simp add: col grid)
qed

lemma column_groups_hstack:
  assumes "wf_matrix M" "int (ncols M) \<le> W \<or> 1 \<le> W"
  shows "\<exists>out. column_groups M W = Inr out \<and> hstack out = Inr M
            \<and> (\<forall>mat \<in> set out. nrows mat = nrows M)"
proof (cases "int (ncols M) > W")
  case True
  with assms have W: "1 \<le> W" by simp
  with True have "1 \<le> ncols M" by simp
  from hstack_col_groups[OF W this assms(1)] True W show ?thesis
    by (auto simp: column_groups_def nrows_def col_slice_def)
next
  case False
  then show ?thesis by (simp add: column_groups_def hstack_single)
qed

text \<open>
  Claim C1, as amended. For every rectangular matrix \<open>M\<close> and limits \<open>H\<close>, \<open>W\<close> such
  that \<open>W \<ge> 1\<close> or the columns already fit \<open>W\<close>, and \<open>H \<ge> 1\<close> or the rows already fit
  \<open>H\<close> (so for all limits \<open>H, W \<ge> 1\<close>), \<open>split_matrix_into_chunks\<close> returns a chunk
  grid, and stacking the row groups of every column group vertically and then the
  column groups horizontally yields \<open>M\<close> exactly; matrices with a single row, a single
  column or a single cell are included.
\<close>

theorem split_matrix_reassemble:
  assumes "wf_matrix M"
    and "int (ncols M) \<le> W \<or> 1 \<le> W"
    and "int (nrows M) \<le> H \<or> 1 \<le> H"
  shows "\<exists>grid. split_matrix_into_chunks M H W = Inr grid \<and> reassemble grid = Inr M"
proof -
  obtain out where out: "column_groups M W = Inr out" "hstack out = Inr M"
      "\<forall>mat \<in> set out. nrows mat = nrows M"
    using column_groups_hstack[OF assms(1,2)] by blast
  have "\<exists>grid. for_each (row_groups H) out = Inr grid \<and> for_each vstack grid = Inr out"
    using out(3) assms(3) by (intro for_each_row_groups) simp
  then obtain grid where grid: "for_each (row_groups H) out = Inr grid"
      "for_each vstack grid = Inr out" by blast
  show ?thesis
    by (simp add: split_matrix_into_chunks_def reassemble_def out(1,2) grid)
qed

text \<open>
  The theorem above at a 2x3 matrix with \<open>H = 1\<close> and \<open>W = 2\<close>, where both axes are cut.
\<close>

theorem split_matrix_reassemble_witness:
  "wf_matrix (Matrix 3 [[1, 2, 3], [4, 5, 6 :: int]])
   \<and> (int (ncols (Matrix 3 [[1, 2, 3], [4, 5, 6 :: int]])) \<le> 2 \<or> (1::int) \<le> 2)
   \<and> (int (nrows (Matrix 3 [[1, 2, 3], [4, 5, 6 :: int]])) \<le> 1 \<or> (1::int) \<le> 1)
   \<and> (\<exists>grid. split_matrix_into_chunks (Matrix 3 [[1, 2, 3], [4, 5, 6 :: int]]) 1 2 = Inr grid
         \<and> reassemble grid = Inr (Matrix 3 [[1, 2, 3], [4, 5, 6]]))"
proof -
  have w: "wf_matrix (Matrix 3 [[1, 2, 3], [4, 5, 6 :: int]])"
    by (simp add: wf_matrix_def)
  show ?thesis
    using w split_matrix_reassemble[OF w, of 2 1] by simp
qed

text \<open>
  Claim C1 as it is written quantifies over every limit. With \<open>W = 0\<close> and a matrix
  that has a column, the ceiling idiom divides by zero and no grid is returned.
\<close>

theorem split_matrix_zero_limit_counterexample:
  "\<not> (\<exists>grid. split_matrix_into_chunks (Matrix 2 [[1, 2 :: int]]) 1 0 = Inr grid
         \<and> reassemble grid = Inr (Matrix 2 [[1, 2]]))"
  by (simp add: split_matrix_into_chunks_def column_groups_def)

section \<open>Shape and data parity\<close>

lemma shape_row_slice:
  "shape (row_slice m a b) = (slice_index b (nrows m) - slice_index a (nrows m), ncols m)"
  by (simp add: shape_def row_slice_def nrows_def length_py_slice)

lemma shape_col_slice:
  "shape (col_slice m a b) = (nrows m, slice_index b (ncols m) - slice_index a (ncols m))"
  by (simp add: shape_def col_slice_def nrows_def)

lemma shape_eq_iff: "shape a = shape b \<longleftrightarrow> nrows a = nrows b \<and> ncols a = ncols b"
  by (simp add: shape_def)

lemma row_groups_shapes:
  assumes "shape a = shape b"
  shows "map_sum id (map shape) (row_groups H a) = map_sum id (map shape) (row_groups H b)"
proof -
  have "nrows a = nrows b" "ncols a = ncols b" using assms by (simp_all add: shape_eq_iff)
  then show ?thesis by (simp add: row_groups_def comp_def shape_row_slice assms)
qed

lemma column_groups_shapes:
  assumes "shape a = shape b"
  shows "map_sum id (map shape) (column_groups a W) = map_sum id (map shape) (column_groups b W)"
proof -
  have "nrows a = nrows b" "ncols a = ncols b" using assms by (simp_all add: shape_eq_iff)
  then show ?thesis by (simp add: column_groups_def comp_def shape_col_slice assms)
qed

lemma for_each_row_groups_shapes:
  assumes "map shape xs = map shape ys"
  shows "map_sum id (map (map shape)) (for_each (row_groups H) xs)
       = map_sum id (map (map shape)) (for_each (row_groups H) ys)"
  using assms
proof (induction xs arbitrary: ys)
  case Nil
  then show ?case by simp
next
  case (Cons x xs)
  then obtain y ys' where ys: "ys = y # ys'" "shape x = shape y" "map shape xs = map shape ys'"
    by (cases ys) auto
  have hd: "map_sum id (map shape) (row_groups H x) = map_sum id (map shape) (row_groups H y)"
    by (rule row_groups_shapes[OF ys(2)])
  have tl: "map_sum id (map (map shape)) (for_each (row_groups H) xs)
       = map_sum id (map (map shape)) (for_each (row_groups H) ys')"
    by (rule Cons.IH[OF ys(3)])
  show ?case
  proof (cases "row_groups H x")
    case (Inl e)
    with hd have "row_groups H y = Inl e" by (cases "row_groups H y") auto
    with Inl show ?thesis by (simp add: ys(1))
  next
    case (Inr cx)
    with hd obtain cy where cy: "row_groups H y = Inr cy" "map shape cx = map shape cy"
      by (cases "row_groups H y") auto
    show ?thesis
    proof (cases "for_each (row_groups H) xs")
      case (Inl e)
      with tl have "for_each (row_groups H) ys' = Inl e"
        by (cases "for_each (row_groups H) ys'") auto
      with Inl Inr cy show ?thesis by (simp add: ys(1))
    next
      case r: (Inr gx)
      with tl obtain gy where gy: "for_each (row_groups H) ys' = Inr gy"
          "map (map shape) gx = map (map shape) gy"
        by (cases "for_each (row_groups H) ys'") auto
      with r Inr cy show ?thesis by (simp add: ys(1))
    qed
  qed
qed

lemma shape_np_empty: "shape (np_empty s) = s"
  by (simp add: np_empty_def shape_def nrows_def)

text \<open>
  Claim C2. For every matrix \<open>M\<close> (so for every shape) and all limits \<open>H\<close>, \<open>W\<close>, what
  \<open>split_shape_into_chunks\<close> returns for the shape of \<open>M\<close> is what
  \<open>split_matrix_into_chunks\<close> returns for \<open>M\<close>, with every chunk replaced by its shape:
  the same nested list of shapes, whether or not the limits divide the sides, and
  the same exception where the matrix tiler raises one.
\<close>

theorem split_shape_matches_split_matrix:
  "split_shape_into_chunks (shape M) H W
     = map_sum id (map (map shape)) (split_matrix_into_chunks M H W)"
proof -
  have s: "shape (np_empty (shape M)) = shape M" by (rule shape_np_empty)
  have c: "map_sum id (map shape) (column_groups (np_empty (shape M)) W)
         = map_sum id (map shape) (column_groups M W)"
    by (rule column_groups_shapes[OF s])
  show ?thesis
  proof (cases "column_groups M W")
    case (Inl e)
    with c have "column_groups (np_empty (shape M)) W = Inl e"
      by (cases "column_groups (np_empty (shape M)) W") auto
    with Inl show ?thesis
      by (simp add: split_shape_into_chunks_def split_matrix_into_chunks_def)
  next
    case (Inr out)
    with c obtain out' where o: "column_groups (np_empty (shape M)) W = Inr out'"
        "map shape out' = map shape out"
      by (cases "column_groups (np_empty (shape M)) W") auto
    have "map_sum id (map (map shape)) (for_each (row_groups H) out')
       = map_sum id (map (map shape)) (for_each (row_groups H) out)"
      by (rule for_each_row_groups_shapes[OF o(2)])
    then show ?thesis
      by (cases "for_each (row_groups H) out'")
         (auto simp: split_shape_into_chunks_def split_matrix_into_chunks_def o(1) Inr)
  qed
qed

section \<open>The vector tiler\<close>

lemma strip_padding:
  "map the (filter (\<lambda>x. x \<noteq> None) (map Some ys @ replicate n None)) = ys"
  by (induction ys) simp_all

lemma unpadded_Nil: "unpadded W [] = []"
  by (simp add: unpadded_def zip_longest_shared.simps[of W "[]"])

lemma unpadded_step:
  "0 < W \<Longrightarrow> xs \<noteq> [] \<Longrightarrow> unpadded W xs = take W xs # unpadded W (drop W xs)"
  by (simp add: unpadded_def zip_longest_shared.simps[of W xs] strip_padding)

lemma unpadded_empty_iff: "0 < W \<Longrightarrow> unpadded W xs = [] \<longleftrightarrow> xs = []"
  by (cases "xs = []") (simp_all add: unpadded_Nil unpadded_step)

lemma concat_unpadded: "0 < W \<Longrightarrow> concat (unpadded W xs) = xs"
proof (induction W xs rule: zip_longest_shared.induct)
  case (1 W xs)
  show ?case
  proof (cases "xs = []")
    case True
    then show ?thesis by (simp add: unpadded_Nil)
  next
    case False
    with 1 show ?thesis by (simp add: unpadded_step)
  qed
qed

lemma unpadded_lengths:
  "0 < W \<Longrightarrow> c \<in> set (unpadded W xs) \<Longrightarrow> 1 \<le> length c \<and> length c \<le> W"
proof (induction W xs rule: zip_longest_shared.induct)
  case (1 W xs)
  show ?case
  proof (cases "xs = []")
    case True
    with "1.prems" show ?thesis by (simp add: unpadded_Nil)
  next
    case False
    have step: "unpadded W xs = take W xs # unpadded W (drop W xs)"
      using "1.prems"(1) False by (rule unpadded_step)
    from "1.prems"(2) have "c = take W xs \<or> c \<in> set (unpadded W (drop W xs))"
      by (simp add: step)
    then show ?thesis
    proof
      assume "c = take W xs"
      moreover have "1 \<le> length xs" using False by (cases xs) simp_all
      ultimately show ?thesis using "1.prems"(1) by simp
    next
      assume "c \<in> set (unpadded W (drop W xs))"
      then show ?thesis using "1.IH" "1.prems"(1) False by simp
    qed
  qed
qed

lemma unpadded_butlast:
  "0 < W \<Longrightarrow> c \<in> set (butlast (unpadded W xs)) \<Longrightarrow> length c = W"
proof (induction W xs rule: zip_longest_shared.induct)
  case (1 W xs)
  show ?case
  proof (cases "xs = []")
    case True
    with "1.prems" show ?thesis by (simp add: unpadded_Nil)
  next
    case False
    have step: "unpadded W xs = take W xs # unpadded W (drop W xs)"
      using "1.prems"(1) False by (rule unpadded_step)
    show ?thesis
    proof (cases "drop W xs = []")
      case True
      with "1.prems"(2) show ?thesis by (simp only: step unpadded_Nil) simp
    next
      case d: False
      then have len: "W \<le> length xs" by simp
      have ne: "unpadded W (drop W xs) \<noteq> []"
        using d "1.prems"(1) by (simp only: unpadded_empty_iff) simp
      from "1.prems"(2) have "c = take W xs \<or> c \<in> set (butlast (unpadded W (drop W xs)))"
        using ne by (simp add: step)
      then show ?thesis
      proof
        assume "c = take W xs"
        then show ?thesis using len by simp
      next
        assume "c \<in> set (butlast (unpadded W (drop W xs)))"
        then show ?thesis using "1.IH" "1.prems"(1) False by simp
      qed
    qed
  qed
qed

text \<open>
  Claim C10. For every non-empty one-dimensional vector \<open>v\<close> and limit \<open>W \<ge> 1\<close>, the
  chunks of \<open>split_vector_into_chunks(v, W)\<close> concatenated in order are \<open>v\<close>; every
  chunk but the last has length exactly \<open>W\<close>, and the last one has a length between 1
  and \<open>W\<close>. A zero-dimensional input is split as the vector of length 1 that holds it.
\<close>

theorem split_vector_rejoin:
  assumes "v \<noteq> []" "1 \<le> W"
  shows "concat (split_vector_into_chunks (Vec v) W) = v
       \<and> split_vector_into_chunks (Vec v) W \<noteq> []
       \<and> (\<forall>c \<in> set (butlast (split_vector_into_chunks (Vec v) W)). int (length c) = W)
       \<and> 1 \<le> length (last (split_vector_into_chunks (Vec v) W))
       \<and> int (length (last (split_vector_into_chunks (Vec v) W))) \<le> W
       \<and> split_vector_into_chunks (Scalar x) W = split_vector_into_chunks (Vec [x]) W"
proof -
  have W: "0 < nat W" using assms(2) by simp
  have d: "split_vector_into_chunks (Vec v) W = unpadded (nat W) v"
    by (simp add: split_vector_into_chunks_def unpadded_def)
  have ne: "unpadded (nat W) v \<noteq> []"
    using assms(1) W by (simp add: unpadded_empty_iff)
  then have l: "last (unpadded (nat W) v) \<in> set (unpadded (nat W) v)" by simp
  have b: "\<forall>c \<in> set (butlast (unpadded (nat W) v)). int (length c) = W"
    using unpadded_butlast[OF W] assms(2) by fastforce
  have s: "split_vector_into_chunks (Scalar x) W = split_vector_into_chunks (Vec [x]) W"
    by (simp add: split_vector_into_chunks_def)
  from unpadded_lengths[OF W l] concat_unpadded[OF W, of v] ne b s assms(2) show ?thesis
    unfolding d by auto
qed

text \<open>The theorem above at a vector of length 5 with \<open>W = 2\<close>, and at the scalar 7.\<close>

theorem split_vector_rejoin_witness:
  "[1, 2, 3, 4, 5 :: int] \<noteq> [] \<and> (1::int) \<le> 2
   \<and> concat (split_vector_into_chunks (Vec [1, 2, 3, 4, 5 :: int]) 2) = [1, 2, 3, 4, 5]
   \<and> split_vector_into_chunks (Vec [1, 2, 3, 4, 5 :: int]) 2 \<noteq> []
   \<and> list_all (\<lambda>c. int (length c) = 2)
         (butlast (split_vector_into_chunks (Vec [1, 2, 3, 4, 5 :: int]) 2))
   \<and> 1 \<le> length (last (split_vector_into_chunks (Vec [1, 2, 3, 4, 5 :: int]) 2))
   \<and> int (length (last (split_vector_into_chunks (Vec [1, 2, 3, 4, 5 :: int]) 2))) \<le> 2
   \<and> split_vector_into_chunks (Scalar (7::int)) 2 = split_vector_into_chunks (Vec [7]) 2"
  using split_vector_rejoin[of "[1, 2, 3, 4, 5 :: int]" 2 7] by (simp add: list_all_iff)

section \<open>The channel tiler\<close>

text \<open>
  When the input channels exceed a limit \<open>C \<ge> 1\<close>, the kernel is cut into
  \<open>ceil(in_channels / C)\<close> groups of at most \<open>C\<close> input channels each.
\<close>

lemma slice_width_le:
  "slice_index (int k * int j + int k) n - slice_index (int k * int j) n \<le> k"
proof -
  have "min (a + k) n - min a n \<le> k" for a :: nat
    by arith
  then have "slice_index (int (k * j + k)) n - slice_index (int (k * j)) n \<le> k"
    unfolding slice_index_nat .
  then show ?thesis by simp
qed

lemma split_kernel_groups:
  assumes "1 \<le> C" "int (in_channels kern) > C"
  shows "\<exists>groups. split_kernel_into_channels kern C = Inr groups
           \<and> int (length groups) = ceil_reps (int (in_channels kern)) C
           \<and> list_all (\<lambda>g. int (in_channels g) \<le> C) groups"
proof -
  define k where "k = nat C"
  have C: "C = int k" using assms(1) by (simp add: k_def)
  have nonneg: "0 \<le> ceil_reps (int (in_channels kern)) C"
    using ceil_reps_covers(2)[OF assms(1), of "int (in_channels kern)"] by simp
  have w: "int (in_channels (channel_slice kern (C * int j) (C * int j + C))) \<le> C" for j
    using slice_width_le[of k j "in_channels kern"] by (simp add: channel_slice_def C)
  show ?thesis
    using assms nonneg w
    by (simp add: split_kernel_into_channels_def py_range_def list_all_iff)
qed

text \<open>
  Claim C4 says that a kernel whose input channels fit \<open>C\<close> comes back as a list of one
  element. The source returns the empty list there: a 1x1x1x1 kernel with \<open>C = 1\<close>.
\<close>

theorem split_kernel_fitting_returns_nothing:
  "split_kernel_into_channels (Kernel 1 1 1 1 [[[[5 :: int]]]]) 1 = Inr []"
  by (simp add: split_kernel_into_channels_def)

section \<open>The GEMM emitter on a matrix that fits\<close>

lemma column_groups_fit: "int (ncols m) \<le> W \<Longrightarrow> column_groups m W = Inr [m]"
  by (simp add: column_groups_def)

lemma row_groups_fit: "int (nrows m) \<le> H \<Longrightarrow> row_groups H m = Inr [m]"
  by (simp add: row_groups_def)

lemma split_matrix_fit:
  "int (nrows m) \<le> H \<Longrightarrow> int (ncols m) \<le> W \<Longrightarrow> split_matrix_into_chunks m H W = Inr [[m]]"
  by (simp add: split_matrix_into_chunks_def column_groups_fit row_groups_fit)

text \<open>
  Claim C7, as amended. For every GEMM node that has a bias and whose weight matrix
  has at most \<open>H\<close> rows and at most \<open>W\<close> columns, \<open>split_gemm_into_chunks\<close> returns the
  list that holds the original node and nothing else: no node is created, and so no
  edge identifier either.
\<close>

theorem split_gemm_fitting_unchanged:
  assumes "matrix cnode = Some m" and "biases cnode = Some b"
    and "int (nrows m) \<le> H" and "int (ncols m) \<le> W"
  shows "split_gemm_into_chunks cnode H W = Inr [cnode]"
  using assms by (simp add: split_gemm_into_chunks_def split_matrix_fit)

text \<open>The theorem above at the 4x10 node with \<open>H = 4\<close> and \<open>W = 10\<close>.\<close>

theorem split_gemm_fitting_unchanged_witness:
  "matrix gemm_4x10 = Some weights_4x10
   \<and> biases gemm_4x10 = Some (Vec [0, 1, 2, 3, 4, 5, 6, 7, 8, 9])
   \<and> int (nrows weights_4x10) \<le> 4 \<and> int (ncols weights_4x10) \<le> 10
   \<and> split_gemm_into_chunks gemm_4x10 4 10 = Inr [gemm_4x10]"
proof -
  have m: "matrix gemm_4x10 = Some weights_4x10"
    and b: "biases gemm_4x10 = Some (Vec [0, 1, 2, 3, 4, 5, 6, 7, 8, 9])"
    by (simp_all add: gemm_4x10_def gemm_node_def new_node_def)
  have r: "int (nrows weights_4x10) \<le> 4" and c: "int (ncols weights_4x10) \<le> 10"
    by (simp_all add: weights_4x10_def nrows_def)
  show ?thesis
    using m b r c split_gemm_fitting_unchanged[OF m b r c] by simp
qed

text \<open>
  Claim C7 as it is written covers every GEMM node whose matrix fits. The bias is cut
  into chunks before the grid is looked at, so a node without a bias, here the 4x10
  node with \<open>H = 4\<close> and \<open>W = 10\<close>, is not returned: reading the shape of \<open>None\<close> raises.
\<close>

theorem split_gemm_fitting_no_bias_counterexample:
  "split_gemm_into_chunks gemm_4x10_no_bias 4 10 = Inl AttributeError"
  by (simp add: split_gemm_into_chunks_def gemm_4x10_no_bias_def gemm_node_def new_node_def
        split_matrix_fit weights_4x10_def nrows_def)

section \<open>The GEMM emitter on the 4x10 scenario\<close>

text \<open>
  Claim C3 expects, for the 4x10 weight matrix with a bias of length 10 and
  \<open>H = W = 4\<close>, three slice nodes, three MatMul nodes, no Add node and one Concat node.
  \<open>split_gemm_into_chunks\<close> emits an add node for every column group, whatever the
  number of its row groups: here three of them, one after each gemm node.
\<close>

theorem gemm_4x10_kinds:
  "map_sum id (map kind) (split_gemm_into_chunks gemm_4x10 4 4)
     = Inr [Slicer, Gemm, Add, Slicer, Gemm, Add, Slicer, Gemm, Add, Cat]"
  by code_simp

section \<open>Edge identifiers\<close>

lemma wire_simps [simp]:
  "wire (slicer_node ins outs lim) = (Slicer, ins, outs, None, Some lim)"
  "wire (gemm_node ins outs m) = (Gemm, ins, outs, Some m, None)"
  "wire (add_node ins outs) = (Add, ins, outs, None, None)"
  "wire (cat_node ins outs ax) = (Cat, ins, outs, None, None)"
  "wire (toeplitzizer_node ins outs ks st) = (Toeplitzizer, ins, outs, None, None)"
  "wire (reshaper_node ins outs ch) = (Reshaper, ins, outs, None, None)"
  "wire (n\<lparr>biases := bs\<rparr>) = wire n"
  "wire (n\<lparr>from_type := ft\<rparr>) = wire n"
  by (simp_all add: wire_def slicer_node_def gemm_node_def add_node_def cat_node_def
        toeplitzizer_node_def reshaper_node_def new_node_def)

lemma map_wire_set_last_biases:
  "nodes \<noteq> [] \<Longrightarrow> map wire (set_last_biases nodes b) = map wire nodes"
proof -
  assume "nodes \<noteq> []"
  then have "map wire nodes = map wire (butlast nodes @ [last nodes])" by simp
  then show ?thesis by (simp add: set_last_biases_def)
qed

lemma map_wire_tagged: "map wire (map (\<lambda>n. n\<lparr>from_type := ft\<rparr>) ns) = map wire ns"
  by (induction ns) simp_all

lemma chunk_loop_wiring:
  assumes "chunk_loop sin c H i j col nodes adder = Inr (nodes', adder')"
    and "outputs c = o0 # os"
  shows "map wire nodes' = map wire nodes @ chunk_wiring sin o0 H i j col
       \<and> adder' = adder @ gemm_outputs o0 i j (length col)"
  using assms(1)
proof (induction col arbitrary: j nodes adder)
  case Nil
  then show ?case by (simp add: chunk_wiring_def gemm_outputs_def)
next
  case (Cons mat col)
  let ?s = "slicer_node sin [slicer_edge o0 i j] (H * int j, H * int j + H) :: 'a node"
  let ?g = "gemm_node [slicer_edge o0 i j] [gemm_edge o0 i j] mat"
  from Cons.prems assms(2) have run:
    "chunk_loop sin c H i (Suc j) col (nodes @ [?s, ?g]) (adder @ [gemm_edge o0 i j]) = Inr (nodes', adder')"
    by (simp add: Let_def)
  have up: "[j..<j + length (mat # col)] = j # [Suc j..<Suc j + length col]"
    using upt_conv_Cons[of j "j + Suc (length col)"] by simp
  have ih1: "map wire nodes' = map wire (nodes @ [?s, ?g]) @ chunk_wiring sin o0 H i (Suc j) col"
    and ih2: "adder' = (adder @ [gemm_edge o0 i j]) @ gemm_outputs o0 i (Suc j) (length col)"
    using Cons.IH[OF run] by blast+
  have cw: "chunk_wiring sin o0 H i j (mat # col)
      = [wire ?s, wire ?g] @ chunk_wiring sin o0 H i (Suc j) col"
    by (simp add: chunk_wiring_def slicer_edge_def gemm_edge_def)
  have go: "gemm_outputs o0 i j (length (mat # col))
      = gemm_edge o0 i j # gemm_outputs o0 i (Suc j) (length col)"
    unfolding gemm_outputs_def up by (simp add: gemm_edge_def)
  show ?case unfolding ih1 ih2 cw go by simp
qed

lemma gemm_columns_wiring:
  assumes "gemm_columns c H sb i cols nodes cat = Inr (nodes', cat')"
    and "outputs c = o0 # os"
  shows "map wire nodes' = map wire nodes @ gemm_wiring (inputs c) o0 H i cols
       \<and> cat' = cat @ map (\<lambda>i. o0 @ ''_adder_'' @ str_nat i) [i..<i + length cols]"
  using assms(1)
proof (induction cols arbitrary: i nodes cat)
  case Nil
  then show ?case by (simp add: gemm_wiring_def)
next
  case (Cons col cols)
  from Cons.prems obtain nodes1 adder where
    cl: "chunk_loop (inputs c) c H i 0 col nodes [] = Inr (nodes1, adder)"
    by (cases "chunk_loop (inputs c) c H i 0 col nodes []") auto
  from Cons.prems cl have ne: "nodes1 \<noteq> []" and sb: "\<not> length sb \<le> i"
    by (auto split: if_splits)
  from Cons.prems cl ne sb assms(2) have run:
    "gemm_columns c H sb (Suc i) cols
       (set_last_biases nodes1 (sb ! i) @ [add_node adder [adder_edge o0 i]])
       (cat @ [adder_edge o0 i]) = Inr (nodes', cat')"
    by (simp add: Let_def)
  from chunk_loop_wiring[OF cl assms(2)] have w1:
    "map wire nodes1 = map wire nodes @ chunk_wiring (inputs c) o0 H i 0 col"
    "adder = gemm_outputs o0 i 0 (length col)" by simp_all
  have up: "[i..<i + length (col # cols)] = i # [Suc i..<Suc i + length cols]"
    using upt_conv_Cons[of i "i + Suc (length cols)"] by simp
  let ?a = "add_node adder [adder_edge o0 i] :: 'a node"
  have ih1: "map wire nodes' = map wire (set_last_biases nodes1 (sb ! i) @ [?a])
        @ gemm_wiring (inputs c) o0 H (Suc i) cols"
    and ih2: "cat' = (cat @ [adder_edge o0 i])
        @ map (\<lambda>i. o0 @ ''_adder_'' @ str_nat i) [Suc i..<Suc i + length cols]"
    using Cons.IH[OF run] by blast+
  have gw: "gemm_wiring (inputs c) o0 H i (col # cols)
      = chunk_wiring (inputs c) o0 H i 0 col @ [wire ?a]
        @ gemm_wiring (inputs c) o0 H (Suc i) cols"
    by (simp add: gemm_wiring_def w1(2) adder_edge_def)
  have m1: "map wire (set_last_biases nodes1 (sb ! i) @ [?a])
      = map wire nodes @ chunk_wiring (inputs c) o0 H i 0 col @ [wire ?a]"
    by (simp add: map_wire_set_last_biases[OF ne] w1(1))
  show ?case unfolding ih1 ih2 gw m1 up by (simp add: adder_edge_def)
qed

lemma conv_columns_wiring:
  assumes "conv_columns t c H sb i cols nodes cat = Inr (nodes', cat')"
    and "outputs c = o0 # os" and "t = o0 @ ''_tplitz''"
  shows "map wire nodes' = map wire nodes @ conv_wiring o0 H i cols
       \<and> cat' = cat @ conv_cat_inputs o0 i cols"
  using assms(1)
proof (induction cols arbitrary: i nodes cat)
  case Nil
  then show ?case by (simp add: conv_wiring_def conv_cat_inputs_def)
next
  case (Cons col cols)
  from Cons.prems obtain nodes1 adder where
    cl: "chunk_loop [t] c H i 0 col nodes [] = Inr (nodes1, adder)"
    by (cases "chunk_loop [t] c H i 0 col nodes []") auto
  from Cons.prems cl have ne: "nodes1 \<noteq> []" and sb: "\<not> length sb \<le> i"
    by (auto split: if_splits)
  from chunk_loop_wiring[OF cl assms(2)] have w1:
    "map wire nodes1 = map wire nodes @ chunk_wiring [t] o0 H i 0 col"
    "adder = gemm_outputs o0 i 0 (length col)" by simp_all
  have len: "length adder = length col" by (simp add: w1(2) gemm_outputs_def)
  show ?case
  proof (cases "length col > 1")
    case True
    with Cons.prems cl ne sb assms(2) len have run:
      "conv_columns t c H sb (Suc i) cols
         (set_last_biases nodes1 (sb ! i) @ [add_node adder [adder_edge o0 i]])
         (cat @ [adder_edge o0 i]) = Inr (nodes', cat')"
      by (simp add: Let_def)
    let ?a = "add_node adder [adder_edge o0 i] :: 'a node"
    have ih1: "map wire nodes' = map wire (set_last_biases nodes1 (sb ! i) @ [?a])
          @ conv_wiring o0 H (Suc i) cols"
      and ih2: "cat' = (cat @ [adder_edge o0 i]) @ conv_cat_inputs o0 (Suc i) cols"
      using Cons.IH[OF run] by blast+
    have gw: "conv_wiring o0 H i (col # cols)
        = chunk_wiring [t] o0 H i 0 col @ [wire ?a] @ conv_wiring o0 H (Suc i) cols"
      using True by (simp add: conv_wiring_def w1(2) adder_edge_def assms(3))
    have ci: "conv_cat_inputs o0 i (col # cols) = adder_edge o0 i # conv_cat_inputs o0 (Suc i) cols"
      using True by (simp add: conv_cat_inputs_def adder_edge_def)
    have m1: "map wire (set_last_biases nodes1 (sb ! i) @ [?a])
        = map wire nodes @ chunk_wiring [t] o0 H i 0 col @ [wire ?a]"
      by (simp add: map_wire_set_last_biases[OF ne] w1(1))
    show ?thesis unfolding ih1 ih2 gw ci m1 by simp
  next
    case False
    with Cons.prems cl ne sb len have run:
      "conv_columns t c H sb (Suc i) cols (set_last_biases nodes1 (sb ! i)) (cat @ adder)
         = Inr (nodes', cat')"
      by (simp add: Let_def)
    have ih1: "map wire nodes' = map wire (set_last_biases nodes1 (sb ! i))
          @ conv_wiring o0 H (Suc i) cols"
      and ih2: "cat' = (cat @ adder) @ conv_cat_inputs o0 (Suc i) cols"
      using Cons.IH[OF run] by blast+
    have gw: "conv_wiring o0 H i (col # cols)
        = chunk_wiring [t] o0 H i 0 col @ conv_wiring o0 H (Suc i) cols"
      using False by (simp add: conv_wiring_def assms(3))
    have ci: "conv_cat_inputs o0 i (col # cols) = adder @ conv_cat_inputs o0 (Suc i) cols"
      using False by (simp add: conv_cat_inputs_def w1(2))
    have m1: "map wire (set_last_biases nodes1 (sb ! i))
        = map wire nodes @ chunk_wiring [t] o0 H i 0 col"
      by (simp add: map_wire_set_last_biases[OF ne] w1(1))
    show ?thesis unfolding ih1 ih2 gw ci m1 by simp
  qed
qed

lemma digit_char_cases:
  assumes "d < 10"
  shows "of_char (digit_char d) = (48 + d :: nat)" and "is_digit (digit_char d)"
    and "digit_char d = CHR ''0'' \<longleftrightarrow> d = 0"
proof -
  have "[0..<10] = [0, 1, 2, 3, 4, 5, 6, 7, 8, 9 :: nat]" by (simp add: upt_rec)
  moreover have "d \<in> set [0..<10]" using assms by simp
  ultimately have "d = 0 \<or> d = 1 \<or> d = 2 \<or> d = 3 \<or> d = 4 \<or> d = 5 \<or> d = 6 \<or> d = 7 \<or> d = 8 \<or> d = 9"
    by (simp only: set_simps) blast
  then show "of_char (digit_char d) = (48 + d :: nat)" and "is_digit (digit_char d)"
    and "digit_char d = CHR ''0'' \<longleftrightarrow> d = 0"
    by (auto simp: digit_char_def is_digit_def)
qed

lemma decimal_value_snoc:
  "decimal_value (cs @ [ch]) = 10 * decimal_value cs + (of_char ch - 48)"
  by (simp add: decimal_value_def)

lemma str_nat_nonempty: "str_nat n \<noteq> []"
  by (subst str_nat.simps) simp

lemma str_nat_decimal:
  "decimal_value (str_nat n) = n \<and> list_all is_digit (str_nat n)
   \<and> (hd (str_nat n) = CHR ''0'' \<longrightarrow> n = 0)"
proof (induction n rule: str_nat.induct)
  case (1 n)
  show ?case
  proof (cases "n < 10")
    case True
    then have s: "str_nat n = [digit_char n]" by (subst str_nat.simps) simp
    show ?thesis
      using digit_char_cases[OF True] by (simp add: s decimal_value_def)
  next
    case False
    then have s: "str_nat n = str_nat (n div 10) @ [digit_char (n mod 10)]"
      by (subst str_nat.simps) simp
    have m: "n mod 10 < 10" by simp
    have q: "n div 10 \<noteq> 0" using False by simp
    from 1[OF False] have ih: "decimal_value (str_nat (n div 10)) = n div 10"
      "list_all is_digit (str_nat (n div 10))"
      "hd (str_nat (n div 10)) = CHR ''0'' \<longrightarrow> n div 10 = 0" by simp_all
    have "decimal_value (str_nat n) = n"
      by (simp add: s decimal_value_snoc ih(1) digit_char_cases(1)[OF m])
    moreover have "list_all is_digit (str_nat n)"
      by (simp add: s ih(2) digit_char_cases(2)[OF m])
    moreover have "hd (str_nat n) \<noteq> CHR ''0''"
      using ih(3) q by (simp add: s str_nat_nonempty)
    ultimately show ?thesis by simp
  qed
qed


text \<open>
  Claim C9. What the emitters return is determined by the node and the limits, and
  is this: the wiring of the nodes returned by \<open>split_gemm_into_chunks\<close> and by
  \<open>split_conv_into_chunks\<close>, in order, consists of the original node alone when the grid
  is a single chunk, and otherwise of the slicer and the gemm node of every chunk
  \<open>(i, j)\<close>, the add node of column group \<open>i\<close>, the concatenation and, for a convolution,
  the Toeplitz node in front and the reshape node at the end. Every generated edge
  identifier is the original node's first output identifier followed by \<open>_tplitz\<close>,
  \<open>_slicer_i-j\<close>, \<open>_gemm_i-j\<close>, \<open>_adder_i\<close> or \<open>_cat\<close>, where the indices are written as
  decimal numerals: digits only, denoting the index, without a leading zero.
\<close>

theorem emitted_wiring:
  assumes "matrix cnode = Some m" and "split_matrix_into_chunks m H W = Inr grid"
    and "outputs cnode = o0 # os"
  shows "(split_gemm_into_chunks cnode H W = Inr nodes \<longrightarrow>
            map wire nodes =
              (if length grid = 1 \<and> length (hd grid) = 1 then [wire cnode]
               else gemm_wiring (inputs cnode) o0 H 0 grid
                    @ [(Cat, map (\<lambda>i. o0 @ ''_adder_'' @ str_nat i) [0..<length grid],
                        outputs cnode, None, None)]))
       \<and> (split_conv_into_chunks cnode H W = Inr nodes \<longrightarrow>
            map wire nodes =
              (if length grid = 1 \<and> length (hd grid) = 1 then [wire cnode]
               else [(Toeplitzizer, inputs cnode, [o0 @ ''_tplitz''], None, None)]
                    @ conv_wiring o0 H 0 grid
                    @ [(Cat, conv_cat_inputs o0 0 grid, [o0 @ ''_cat''], None, None),
                       (Reshaper, [o0 @ ''_cat''], outputs cnode, None, None)]))
       \<and> decimal_value (str_nat n) = n \<and> list_all is_digit (str_nat n)
       \<and> (hd (str_nat n) = CHR ''0'' \<longrightarrow> n = 0)"
proof (intro conjI impI)
  assume r: "split_gemm_into_chunks cnode H W = Inr nodes"
  show "map wire nodes =
      (if length grid = 1 \<and> length (hd grid) = 1 then [wire cnode]
       else gemm_wiring (inputs cnode) o0 H 0 grid
            @ [(Cat, map (\<lambda>i. o0 @ ''_adder_'' @ str_nat i) [0..<length grid],
                outputs cnode, None, None)])"
  proof (cases "length grid = 1 \<and> length (hd grid) = 1")
    case True
    with r assms(1,2) have "nodes = [cnode]"
      by (auto simp: split_gemm_into_chunks_def split: option.splits)
    then show ?thesis unfolding if_P[OF True] by simp
  next
    case False
    with r assms(1,2) obtain b ns cat where
      run: "gemm_columns cnode H (split_vector_into_chunks b W) 0 grid [] [] = Inr (ns, cat)"
      and nodes: "nodes = map (\<lambda>n. n\<lparr>from_type := Some ''gemm''\<rparr>) (ns @ [cat_node cat (outputs cnode) 0])"
      by (auto simp: split_gemm_into_chunks_def Let_def split: option.splits sum.splits if_splits)
    from gemm_columns_wiring[OF run assms(3)] have
      w: "map wire ns = gemm_wiring (inputs cnode) o0 H 0 grid"
      and c: "cat = map (\<lambda>i. o0 @ ''_adder_'' @ str_nat i) [0..<length grid]"
      by simp_all
    have "map wire nodes = map wire ns @ [wire (cat_node cat (outputs cnode) 0 :: 'a node)]"
      unfolding nodes map_wire_tagged by simp
    then show ?thesis unfolding if_not_P[OF False] by (simp add: w c)
  qed
next
  assume r: "split_conv_into_chunks cnode H W = Inr nodes"
  show "map wire nodes =
      (if length grid = 1 \<and> length (hd grid) = 1 then [wire cnode]
       else [(Toeplitzizer, inputs cnode, [o0 @ ''_tplitz''], None, None)]
            @ conv_wiring o0 H 0 grid
            @ [(Cat, conv_cat_inputs o0 0 grid, [o0 @ ''_cat''], None, None),
               (Reshaper, [o0 @ ''_cat''], outputs cnode, None, None)])"
  proof (cases "length grid = 1 \<and> length (hd grid) = 1")
    case True
    with r assms(1,2) obtain ft where "nodes = [cnode\<lparr>from_type := ft\<rparr>]"
      by (auto simp: split_conv_into_chunks_def Let_def split: option.splits)
    then show ?thesis unfolding if_P[OF True] by simp
  next
    case False
    from r assms(1,2) obtain b k where b: "biases cnode = Some b"
      and k: "kernel_tensor cnode = Some k"
      by (auto simp: split_conv_into_chunks_def split: option.splits)
    let ?t = "toeplitzizer_node (inputs cnode) [tplitz_edge o0] (kernel_w k) (strides cnode) :: 'a node"
    from r assms b k False obtain ns cat where
      run: "conv_columns (tplitz_edge o0) cnode H (split_vector_into_chunks b W) 0 grid [?t] []
              = Inr (ns, cat)"
      and nodes: "nodes = map (\<lambda>n. n\<lparr>from_type := Some (conv_tag (kernel_w k))\<rparr>)
          (ns @ [cat_node cat [cat_edge o0] (- 1), reshaper_node [cat_edge o0] (outputs cnode) (ncols m)])"
      by (auto simp: split_conv_into_chunks_def Let_def split: sum.splits if_splits)
    from conv_columns_wiring[OF run assms(3)] have
      w: "map wire ns = wire ?t # conv_wiring o0 H 0 grid"
      and c: "cat = conv_cat_inputs o0 0 grid"
      by (simp_all add: tplitz_edge_def)
    have "map wire nodes = map wire ns @ [wire (cat_node cat [cat_edge o0] (- 1) :: 'a node),
        wire (reshaper_node [cat_edge o0] (outputs cnode) (ncols m) :: 'a node)]"
      unfolding nodes map_wire_tagged by simp
    then show ?thesis unfolding if_not_P[OF False] by (simp add: w c tplitz_edge_def cat_edge_def)
  qed
qed (use str_nat_decimal[of n] in simp_all)

text \<open>
  The theorem above at the pointwise convolution node with \<open>H = 2\<close> and \<open>W = 1\<close>, and at
  the index 12.
\<close>

theorem emitted_wiring_witness:
  "\<exists>nodes. matrix conv_3x2 = Some (Matrix 2 [[1, 2], [3, 4], [5, 6]])
     \<and> split_matrix_into_chunks (Matrix 2 [[1, 2], [3, 4], [5, 6 :: int]]) 2 1
         = Inr [[Matrix 1 [[1], [3]], Matrix 1 [[5]]], [Matrix 1 [[2], [4]], Matrix 1 [[6]]]]
     \<and> outputs conv_3x2 = [''y'']
     \<and> split_conv_into_chunks conv_3x2 2 1 = Inr nodes
     \<and> map wire nodes =
         [(Toeplitzizer, [''x''], [''y_tplitz''], None, None),
          (Slicer, [''y_tplitz''], [''y_slicer_0-0''], None, Some (0, 2)),
          (Gemm, [''y_slicer_0-0''], [''y_gemm_0-0''], Some (Matrix 1 [[1], [3]]), None),
          (Slicer, [''y_tplitz''], [''y_slicer_0-1''], None, Some (2, 4)),
          (Gemm, [''y_slicer_0-1''], [''y_gemm_0-1''], Some (Matrix 1 [[5]]), None),
          (Add, [''y_gemm_0-0'', ''y_gemm_0-1''], [''y_adder_0''], None, None),
          (Slicer, [''y_tplitz''], [''y_slicer_1-0''], None, Some (0, 2)),
          (Gemm, [''y_slicer_1-0''], [''y_gemm_1-0''], Some (Matrix 1 [[2], [4]]), None),
          (Slicer, [''y_tplitz''], [''y_slicer_1-1''], None, Some (2, 4)),
          (Gemm, [''y_slicer_1-1''], [''y_gemm_1-1''], Some (Matrix 1 [[6]]), None),
          (Add, [''y_gemm_1-0'', ''y_gemm_1-1''], [''y_adder_1''], None, None),
          (Cat, [''y_adder_0'', ''y_adder_1''], [''y_cat''], None, None),
          (Reshaper, [''y_cat''], [''y''], None, None)]
     \<and> str_nat 12 = ''12'' \<and> decimal_value (str_nat 12) = 12"
proof -
  let ?grid = "[[Matrix 1 [[1], [3]], Matrix 1 [[5]]], [Matrix 1 [[2], [4]], Matrix 1 [[6 :: int]]]]"
  have m: "matrix conv_3x2 = Some (Matrix 2 [[1, 2], [3, 4], [5, 6]])"
    and o: "outputs conv_3x2 = [''y'']" and i: "inputs conv_3x2 = [''x'']"
    by (simp_all add: conv_3x2_def new_node_def)
  have g: "split_matrix_into_chunks (Matrix 2 [[1, 2], [3, 4], [5, 6 :: int]]) 2 1 = Inr ?grid"
    by code_simp
  have "\<not> isl (split_conv_into_chunks conv_3x2 2 1)" by code_simp
  then obtain nodes where n: "split_conv_into_chunks conv_3x2 2 1 = Inr nodes"
    by (cases "split_conv_into_chunks conv_3x2 2 1") simp_all
  have cw: "[(Toeplitzizer, [''x''], [''y'' @ ''_tplitz''], None, None)]
        @ conv_wiring ''y'' 2 0 ?grid
        @ [(Cat, conv_cat_inputs ''y'' 0 ?grid, [''y'' @ ''_cat''], None, None),
           (Reshaper, [''y'' @ ''_cat''], [''y''], None, None)]
      = [(Toeplitzizer, [''x''], [''y_tplitz''], None, None),
          (Slicer, [''y_tplitz''], [''y_slicer_0-0''], None, Some (0, 2)),
          (Gemm, [''y_slicer_0-0''], [''y_gemm_0-0''], Some (Matrix 1 [[1], [3]]), None),
          (Slicer, [''y_tplitz''], [''y_slicer_0-1''], None, Some (2, 4)),
          (Gemm, [''y_slicer_0-1''], [''y_gemm_0-1''], Some (Matrix 1 [[5]]), None),
          (Add, [''y_gemm_0-0'', ''y_gemm_0-1''], [''y_adder_0''], None, None),
          (Slicer, [''y_tplitz''], [''y_slicer_1-0''], None, Some (0, 2)),
          (Gemm, [''y_slicer_1-0''], [''y_gemm_1-0''], Some (Matrix 1 [[2], [4]]), None),
          (Slicer, [''y_tplitz''], [''y_slicer_1-1''], None, Some (2, 4)),
          (Gemm, [''y_slicer_1-1''], [''y_gemm_1-1''], Some (Matrix 1 [[6]]), None),
          (Add, [''y_gemm_1-0'', ''y_gemm_1-1''], [''y_adder_1''], None, None),
          (Cat, [''y_adder_0'', ''y_adder_1''], [''y_cat''], None, None),
          (Reshaper, [''y_cat''], [''y''], None, None)]"
    by code_simp
  have s12: "str_nat 12 = ''12''" by code_simp
  from emitted_wiring[OF m g o, of nodes 12] n
  have w: "map wire nodes
      = [(Toeplitzizer, [''x''], [''y'' @ ''_tplitz''], None, None)]
        @ conv_wiring ''y'' 2 0 ?grid
        @ [(Cat, conv_cat_inputs ''y'' 0 ?grid, [''y'' @ ''_cat''], None, None),
           (Reshaper, [''y'' @ ''_cat''], [''y''], None, None)]"
    and d: "decimal_value (str_nat 12) = 12"
    by (simp_all add: i o)
  from w cw m g o n s12 d show ?thesis by (intro exI[of _ nodes]) simp
qed

section \<open>Bias placement\<close>


lemma matmul_biases_Nil [simp]: "matmul_biases [] = []"
  by (simp add: matmul_biases_def)

lemma matmul_biases_nodes [simp]:
  "matmul_biases [slicer_node ins outs lim] = []"
  "matmul_biases [gemm_node ins outs m] = [None]"
  "matmul_biases [add_node ins outs] = []"
  "matmul_biases [cat_node ins outs ax] = []"
  "matmul_biases [toeplitzizer_node ins outs ks st] = []"
  "matmul_biases [reshaper_node ins outs ch] = []"
  by (simp_all add: matmul_biases_def slicer_node_def gemm_node_def add_node_def cat_node_def
        toeplitzizer_node_def reshaper_node_def new_node_def)





















section \<open>Window lowering\<close>

lemma nth_concat_uniform:
  "(\<And>x. x \<in> set xs \<Longrightarrow> length (f x) = n) \<Longrightarrow> i < length xs \<Longrightarrow> j < n \<Longrightarrow>
     concat (map f xs) ! (i * n + j) = f (xs ! i) ! j"
proof (induction xs arbitrary: i)
  case Nil
  then show ?case by simp
next
  case (Cons x xs)
  show ?case
  proof (cases i)
    case 0
    with Cons.prems show ?thesis by (simp add: nth_append)
  next
    case (Suc i')
    have len: "length (f x) = n" using Cons.prems(1) by simp
    have "concat (map f (x # xs)) ! (i * n + j) = concat (map f xs) ! (i' * n + j)"
      using Suc len by (simp add: nth_append)
    also have "\<dots> = f (xs ! i') ! j"
      using Cons.prems Suc by (intro Cons.IH) simp_all
    finally show ?thesis using Suc by simp
  qed
qed

lemma transpose_120_dims [simp]:
  "dim0 (transpose_120 t) = dim1 t" "dim1 (transpose_120 t) = dim2 t"
  "dim2 (transpose_120 t) = dim0 t"
  by (simp_all add: transpose_120_def)

lemma transpose_120_dtype [simp]: "dtype (transpose_120 t) = dtype t"
  by (simp add: transpose_120_def)

lemma pad_with_dims [simp]:
  "dim0 (pad_with z t) = dim0 t + 2" "dim1 (pad_with z t) = dim1 t + 2" "dim2 (pad_with z t) = dim2 t"
  by (simp_all add: pad_with_def Let_def)

lemma pad_with_cells:
  obtains zc blank where
    "cells (pad_with z T) = blank # map (\<lambda>row. zc # row @ [zc]) (cells T) @ [blank]"
    "length blank = dim1 T + 2" "length zc = dim2 T"
    "\<And>j. j < dim1 T + 2 \<Longrightarrow> blank ! j = zc" "\<And>k. k < dim2 T \<Longrightarrow> zc ! k = z"
proof
  let ?zc = "replicate (dim2 T) z"
  let ?blank = "replicate (dim1 T + 2) ?zc"
  show "cells (pad_with z T) = ?blank # map (\<lambda>row. ?zc # row @ [?zc]) (cells T) @ [?blank]"
    by (simp add: pad_with_def Let_def)
  show "length ?blank = dim1 T + 2" by (rule length_replicate)
  show "length ?zc = dim2 T" by (rule length_replicate)
  show "\<And>j. j < dim1 T + 2 \<Longrightarrow> ?blank ! j = ?zc" by (rule nth_replicate)
  show "\<And>k. k < dim2 T \<Longrightarrow> ?zc ! k = z" by (rule nth_replicate)
qed

lemma padded_cells:
  assumes "i < dim1 t + 2" "j < dim2 t + 2" "k < dim0 t"
  shows "cells (pad_with z (transpose_120 t)) ! i ! j ! k = padded_at z t i j k"
proof -
  let ?T = "transpose_120 t"
  have len: "length (cells ?T) = dim1 t" by (simp add: transpose_120_def)
  obtain zc blank where
    cs: "cells (pad_with z ?T) = blank # map (\<lambda>row. zc # row @ [zc]) (cells ?T) @ [blank]"
    and bl: "\<And>j. j < dim2 t + 2 \<Longrightarrow> blank ! j = zc"
    and zc: "\<And>k. k < dim0 t \<Longrightarrow> zc ! k = z"
    using pad_with_cells[of z ?T] by (metis transpose_120_dims(2,3))
  consider "i = 0" | "i = dim1 t + 1" | "1 \<le> i" "i \<le> dim1 t" using assms(1) by linarith
  then show ?thesis
  proof cases
    case 1
    then show ?thesis using assms by (simp add: cs padded_at_def bl zc)
  next
    case 2
    then have "cells (pad_with z ?T) ! i = blank"
      unfolding cs by (simp add: nth_append len)
    then show ?thesis using assms 2 by (simp add: padded_at_def bl zc)
  next
    case 3
    then obtain i' where i': "i = Suc i'" "i' < dim1 t" by (cases i) simp_all
    have row: "cells (pad_with z ?T) ! i = zc # (cells ?T ! i') @ [zc]"
      unfolding cs i'(1) using i'(2) by (simp add: nth_append len)
    have rl: "length (cells ?T ! i') = dim2 t"
      using i'(2) by (simp add: transpose_120_def)
    consider "j = 0" | "j = dim2 t + 1" | "1 \<le> j" "j \<le> dim2 t" using assms(2) by linarith
    then show ?thesis
    proof cases
      case 1
      then show ?thesis using assms by (simp add: row padded_at_def zc)
    next
      case 2
      then show ?thesis using assms by (simp add: row nth_append rl padded_at_def zc)
    next
      case 3
      then obtain j' where j': "j = Suc j'" "j' < dim2 t" by (cases j) simp_all
      have "cells (pad_with z ?T) ! i ! j = cells ?T ! i' ! j'"
        unfolding row j'(1) using j'(2) by (simp add: nth_append rl)
      also have "\<dots> ! k = cells t ! k ! i' ! j'"
        using i'(2) j'(2) assms(3) by (simp add: transpose_120_def)
      finally show ?thesis using i' j' by (simp add: padded_at_def)
    qed
  qed
qed

lemma padded_lengths:
  "length (cells (pad_with z (transpose_120 t))) = dim1 t + 2"
  "i < dim1 t + 2 \<Longrightarrow> length (cells (pad_with z (transpose_120 t)) ! i) = dim2 t + 2"
proof -
  let ?T = "transpose_120 t"
  have len: "length (cells ?T) = dim1 t" by (simp add: transpose_120_def)
  obtain zc blank where
    cs: "cells (pad_with z ?T) = blank # map (\<lambda>row. zc # row @ [zc]) (cells ?T) @ [blank]"
    and bl: "length blank = dim2 t + 2"
    using pad_with_cells[of z ?T] by (metis transpose_120_dims(2))
  show "length (cells (pad_with z ?T)) = dim1 t + 2" by (simp add: cs len)
  have "\<forall>row \<in> set (cells (pad_with z ?T)). length row = dim2 t + 2"
    unfolding cs using bl by (auto simp: transpose_120_def)
  moreover assume "i < dim1 t + 2"
  ultimately show "length (cells (pad_with z ?T) ! i) = dim2 t + 2"
    using \<open>length (cells (pad_with z ?T)) = dim1 t + 2\<close> by (metis nth_mem)
qed


lemma py_slice_three: "py_slice (int a) (int a + 3) xs = take 3 (drop a xs)"
  using py_slice_nat[of a 3 xs] by simp

lemma window3_dims:
  assumes "r + 3 \<le> dim0 P" "c + 3 \<le> dim1 P"
  shows "dim0 (window3 P r c) = 3" "dim1 (window3 P r c) = 3" "dim2 (window3 P r c) = dim2 P"
proof -
  have "int r + 3 = int (r + 3)" "int c + 3 = int (c + 3)" by simp_all
  then show "dim0 (window3 P r c) = 3" "dim1 (window3 P r c) = 3"
    using assms unfolding window3_def by (simp_all only: tensor3.sel slice_index_nat)
  show "dim2 (window3 P r c) = dim2 P" by (simp add: window3_def)
qed

lemma window3_cells:
  assumes "r + 3 \<le> length (cells P)" "c + 3 \<le> length (cells P ! (r + dy))" "dy < 3" "dx < 3"
  shows "cells (window3 P r c) ! dy ! dx = cells P ! (r + dy) ! (c + dx)"
proof -
  have "cells (window3 P r c) ! dy = take 3 (drop c (take 3 (drop r (cells P)) ! dy))"
    using assms(1,3) by (simp add: window3_def py_slice_three)
  also have "take 3 (drop r (cells P)) ! dy = cells P ! (r + dy)"
    using assms(1,3) by simp
  finally show ?thesis using assms(2,4) by simp
qed

lemma window_padded:
  assumes "r + 1 \<le> dim1 t" "c + 1 \<le> dim2 t" "dy < 3" "dx < 3" "k < dim0 t"
  shows "cells (window3 (pad_with z (transpose_120 t)) r c) ! dy ! dx ! k
       = padded_at z t (r + dy) (c + dx) k"
proof -
  let ?P = "pad_with z (transpose_120 t)"
  have i: "r + dy < dim1 t + 2" and j: "c + dx < dim2 t + 2" using assms by simp_all
  have l1: "r + 3 \<le> length (cells ?P)" using assms(1) by (simp add: padded_lengths(1))
  have l2: "c + 3 \<le> length (cells ?P ! (r + dy))"
    using assms(2) padded_lengths(2)[OF i, of z] by simp
  have "cells (window3 ?P r c) ! dy ! dx = cells ?P ! (r + dy) ! (c + dx)"
    by (rule window3_cells[OF l1 l2 assms(3,4)])
  then show ?thesis by (simp add: padded_cells[OF i j assms(5)])
qed

lemma upt_3: "[0..<3] = [0, 1, 2]"
  by (simp add: upt_rec)

lemma flatten_major:
  assumes "r + 1 \<le> dim1 t" "c + 1 \<le> dim2 t"
  shows "flatten3 (transpose_201 (window3 (pad_with z (transpose_120 t)) r c))
       = concat (map (\<lambda>k. concat (map (\<lambda>dy. map (\<lambda>dx. padded_at z t (r + dy) (c + dx) k)
           [0..<3]) [0..<3])) [0..<dim0 t])"
proof -
  let ?w = "window3 (pad_with z (transpose_120 t)) r c"
  have d: "dim0 ?w = 3" "dim1 ?w = 3" "dim2 ?w = dim0 t"
    using assms by (simp_all add: window3_dims)
  have "flatten3 (transpose_201 ?w)
      = concat (map (\<lambda>k. concat (map (\<lambda>dy. map (\<lambda>dx. cells ?w ! dy ! dx ! k)
           [0..<3]) [0..<3])) [0..<dim0 t])"
    by (simp add: flatten3_def transpose_201_def d comp_def)
  also have "\<dots> = concat (map (\<lambda>k. concat (map (\<lambda>dy. map (\<lambda>dx. padded_at z t (r + dy) (c + dx) k)
           [0..<3]) [0..<3])) [0..<dim0 t])"
    using assms by (intro arg_cong[of _ _ concat] map_cong refl) (simp add: window_padded)
  finally show ?thesis .
qed

lemma flatten_minor:
  assumes "r + 1 \<le> dim1 t" "c + 1 \<le> dim2 t"
  shows "flatten3 (transpose_120 (transpose_201 (window3 (pad_with z (transpose_120 t)) r c)))
       = concat (map (\<lambda>dy. concat (map (\<lambda>dx. map (\<lambda>k. padded_at z t (r + dy) (c + dx) k)
           [0..<dim0 t]) [0..<3])) [0..<3])"
proof -
  let ?w = "window3 (pad_with z (transpose_120 t)) r c"
  have d: "dim0 ?w = 3" "dim1 ?w = 3" "dim2 ?w = dim0 t"
    using assms by (simp_all add: window3_dims)
  have tw: "cells (transpose_201 ?w) ! k ! dy ! dx = cells ?w ! dy ! dx ! k"
    if "k < dim0 t" "dy < 3" "dx < 3" for k dy dx
    using that by (simp add: transpose_201_def d)
  have "flatten3 (transpose_120 (transpose_201 ?w))
      = concat (map (\<lambda>dy. concat (map (\<lambda>dx. map (\<lambda>k. cells (transpose_201 ?w) ! k ! dy ! dx)
           [0..<dim0 t]) [0..<3])) [0..<3])"
    by (simp add: flatten3_def transpose_120_def[of "transpose_201 ?w"] transpose_201_def[of ?w, THEN arg_cong[of _ _ dim0]]
          transpose_201_def[of ?w, THEN arg_cong[of _ _ dim1]] transpose_201_def[of ?w, THEN arg_cong[of _ _ dim2]] d comp_def)
  also have "\<dots> = concat (map (\<lambda>dy. concat (map (\<lambda>dx. map (\<lambda>k. padded_at z t (r + dy) (c + dx) k)
           [0..<dim0 t]) [0..<3])) [0..<3])"
    using assms by (intro arg_cong[of _ _ concat] map_cong refl) (simp add: tw window_padded)
  finally show ?thesis .
qed


lemma length_pixels: "length (pixels H W) = H * W"
  by (simp add: pixels_def length_concat comp_def sum_list_triv)

lemma pixel_index:
  fixes r H c W :: nat
  assumes "r < H" "c < W"
  shows "r * W + c < H * W"
proof -
  have "r * W + c < Suc r * W" using assms(2) by simp
  also have "Suc r * W \<le> H * W" using assms(1) by (intro mult_le_mono1) simp
  finally show ?thesis .
qed

lemma nth_pixels: "r < H \<Longrightarrow> c < W \<Longrightarrow> pixels H W ! (r * W + c) = (r, c)"
  unfolding pixels_def
  using nth_concat_uniform[of "[0..<H]" "\<lambda>r. map (\<lambda>c. (r, c)) [0..<W]" W r c] by simp

lemma set_pixels: "px \<in> set (pixels H W) \<longleftrightarrow> fst px < H \<and> snd px < W"
  by (cases px) (auto simp: pixels_def image_iff)

lemma stride_in_bounds:
  assumes "1 \<le> s" "r < n div s"
  shows "s * r + 1 \<le> (n::nat)"
proof -
  have "s * Suc r \<le> s * (n div s)" using assms(2) by (simp add: Suc_leI del: mult_Suc_right)
  also have "\<dots> \<le> n" by simp
  finally show ?thesis using assms(1) by simp
qed

lemma length_receptive_row: "length (receptive_row z t s px) = dim0 t * 9"
  by (simp add: receptive_row_def upt_3 length_concat comp_def sum_list_triv)

lemma length_receptive_row_minor: "length (receptive_row_minor z t s px) = dim0 t * 9"
  by (simp add: receptive_row_minor_def upt_3)

lemma toeplitz_row_3:
  assumes "s * fst px + 1 \<le> dim1 t" "s * snd px + 1 \<le> dim2 t"
  shows "toeplitz_row (pad_with z (transpose_120 t)) 3 s cm (dim0 t * 9) px
       = Inr (if cm then receptive_row_minor z t s px else receptive_row z t s px)"
proof (cases cm)
  case True
  then show ?thesis
    using flatten_minor[OF assms, of z]
    by (simp add: toeplitz_row_def get_recfield_for_pixel_def recfield_transpose_120_def
          recfield_flatten_def receptive_row_minor_def[symmetric] assign_row_def
          length_receptive_row_minor)
next
  case False
  then show ?thesis
    using flatten_major[OF assms, of z]
    by (simp add: toeplitz_row_def get_recfield_for_pixel_def
          recfield_flatten_def receptive_row_def[symmetric] assign_row_def
          length_receptive_row)
qed

lemma toeplitzize_3:
  assumes "1 \<le> s" "astype (dtype t) zp = Inr z"
  shows "toeplitzize_input t 3 s cm zp
       = Inr (Matrix (dim0 t * 9)
           (map (\<lambda>px. if cm then receptive_row_minor z t s px else receptive_row z t s px)
              (pixels (dim1 t div s) (dim2 t div s))))"
proof -
  have "for_each (toeplitz_row (pad_with z (transpose_120 t)) 3 s cm (dim0 t * 9))
          (pixels (dim1 t div s) (dim2 t div s))
      = Inr (map (\<lambda>px. if cm then receptive_row_minor z t s px else receptive_row z t s px)
              (pixels (dim1 t div s) (dim2 t div s)))"
  proof (rule for_each_map)
    fix px assume "px \<in> set (pixels (dim1 t div s) (dim2 t div s))"
    then have "fst px < dim1 t div s" "snd px < dim2 t div s" by (simp_all add: set_pixels)
    then have "s * fst px + 1 \<le> dim1 t" "s * snd px + 1 \<le> dim2 t"
      using stride_in_bounds[OF assms(1), of "fst px" "dim1 t"]
        stride_in_bounds[OF assms(1), of "snd px" "dim2 t"] by blast+
    then show "toeplitz_row (pad_with z (transpose_120 t)) 3 s cm (dim0 t * 9) px
       = Inr (if cm then receptive_row_minor z t s px else receptive_row z t s px)"
      by (rule toeplitz_row_3)
  qed
  then show ?thesis
    using assms by (simp add: toeplitzize_input_def Let_def pad_hw_def)
qed

lemma one_channel_row:
  assumes "dim0 t = 1" "dy < 3" "dx < 3"
  shows "receptive_row z t s px ! (dy * 3 + dx) = padded_at z t (s * fst px + dy) (s * snd px + dx) 0"
    and "receptive_row_minor z t s px ! (dy * 3 + dx) = padded_at z t (s * fst px + dy) (s * snd px + dx) 0"
proof -
  have "dy = 0 \<or> dy = 1 \<or> dy = 2" "dx = 0 \<or> dx = 1 \<or> dx = 2" using assms(2,3) by linarith+
  then show "receptive_row z t s px ! (dy * 3 + dx) = padded_at z t (s * fst px + dy) (s * snd px + dx) 0"
    and "receptive_row_minor z t s px ! (dy * 3 + dx) = padded_at z t (s * fst px + dy) (s * snd px + dx) 0"
    using assms(1) by (auto simp: receptive_row_def receptive_row_minor_def upt_3)
qed

text \<open>
  Claim C6, as amended. For kernel size 3, a stride of at least 1 and a \<open>zero_point\<close>
  that the tensor's element type converts to a value \<open>z\<close> (\<open>zero_point\<close> itself when the
  type holds it), \<open>toeplitzize_input\<close> returns a matrix of shape
  \<open>(H_out * W_out, C * 9)\<close>, where \<open>H_out\<close> and \<open>W_out\<close> are the height and the width
  divided by the stride. Row \<open>r * W_out + c\<close> is the 3x3 receptive field of output pixel
  \<open>(r, c)\<close> in all channels, read off the input padded by one \<open>z\<close> on each side of
  height and width, flattened with the channels outermost or, under the layout flag,
  innermost. For one channel and stride 1, every entry of a row whose position in the
  receptive field falls outside the input is \<open>z\<close>: the constant 128 when \<open>zero_point\<close> is
  128 and the element type holds 128.
\<close>

theorem toeplitz_3x3_rows:
  assumes "1 \<le> s" and "astype (dtype t) zp = Inr z"
  shows "\<exists>out. toeplitzize_input t 3 s cm zp = Inr out
     \<and> shape out = ((dim1 t div s) * (dim2 t div s), dim0 t * 9)
     \<and> wf_matrix out
     \<and> (\<forall>r < dim1 t div s. \<forall>c < dim2 t div s.
          rows out ! (r * (dim2 t div s) + c)
            = (if cm then receptive_row_minor z t s (r, c) else receptive_row z t s (r, c)))
     \<and> (dim0 t = 1 \<and> s = 1 \<longrightarrow>
          (\<forall>r < dim1 t. \<forall>c < dim2 t. \<forall>dy < 3. \<forall>dx < 3.
             r + dy = 0 \<or> dim1 t < r + dy \<or> c + dx = 0 \<or> dim2 t < c + dx \<longrightarrow>
             rows out ! (r * dim2 t + c) ! (dy * 3 + dx) = z))"
proof -
  let ?H = "dim1 t div s" and ?W = "dim2 t div s"
  let ?row = "\<lambda>px. if cm then receptive_row_minor z t s px else receptive_row z t s px"
  let ?out = "Matrix (dim0 t * 9) (map ?row (pixels ?H ?W))"
  have res: "toeplitzize_input t 3 s cm zp = Inr ?out" by (rule toeplitzize_3[OF assms])
  have shp: "shape ?out = (?H * ?W, dim0 t * 9)"
    by (simp add: shape_def nrows_def length_pixels)
  have wf: "wf_matrix ?out"
    by (simp add: wf_matrix_def list_all_iff length_receptive_row length_receptive_row_minor)
  have nth: "rows ?out ! (r * ?W + c) = ?row (r, c)" if "r < ?H" "c < ?W" for r c
    using that by (simp add: length_pixels pixel_index nth_pixels)
  have border: "rows ?out ! (r * dim2 t + c) ! (dy * 3 + dx) = z"
    if one: "dim0 t = 1" "s = 1" and rc: "r < dim1 t" "c < dim2 t" and d: "dy < 3" "dx < 3"
      and ob: "r + dy = 0 \<or> dim1 t < r + dy \<or> c + dx = 0 \<or> dim2 t < c + dx" for r c dy dx
  proof -
    have "rows ?out ! (r * dim2 t + c) = ?row (r, c)"
      using nth[of r c] rc one(2) by simp
    moreover have "?row (r, c) ! (dy * 3 + dx) = padded_at z t (r + dy) (c + dx) 0"
      using one_channel_row[OF one(1) d, of z s "(r, c)"] one(2) by simp
    moreover have "padded_at z t (r + dy) (c + dx) 0 = z"
      using ob by (auto simp: padded_at_def)
    ultimately show ?thesis by simp
  qed
  show ?thesis
    using res shp wf nth border by blast
qed

text \<open>
  The theorem above at one channel of 2x2 unsigned bytes, stride 1 and zero point 128:
  the four rows, and the padding constant at the top left of the first receptive field.
\<close>

theorem toeplitz_3x3_rows_witness:
  "(1::nat) \<le> 1
   \<and> astype (dtype tensor_1x2x2) 128 = Inr 128
   \<and> (\<exists>out. toeplitzize_input tensor_1x2x2 3 1 False 128 = Inr out
         \<and> out = Matrix 9 [[128, 128, 128, 128, 1, 2, 128, 3, 4],
                           [128, 128, 128, 1, 2, 128, 3, 4, 128],
                           [128, 1, 2, 128, 3, 4, 128, 128, 128],
                           [1, 2, 128, 3, 4, 128, 128, 128, 128]]
         \<and> shape out = (4, 9)
         \<and> rows out ! 0 = receptive_row 128 tensor_1x2x2 1 (0, 0)
         \<and> rows out ! 0 ! 0 = 128)"
proof -
  let ?T = "tensor_1x2x2"
  have d: "dim0 ?T = 1" "dim1 ?T = 2" "dim2 ?T = 2"
    by (simp_all add: tensor_1x2x2_def)
  have zp: "astype (dtype ?T) 128 = Inr 128"
    by (simp add: tensor_1x2x2_def uint8_wrap_def)
  have v: "toeplitzize_input ?T 3 1 False 128
      = Inr (Matrix 9 [[128, 128, 128, 128, 1, 2, 128, 3, 4],
                       [128, 128, 128, 1, 2, 128, 3, 4, 128],
                       [128, 1, 2, 128, 3, 4, 128, 128, 128],
                       [1, 2, 128, 3, 4, 128, 128, 128, 128]])"
    by code_simp
  have one: "(1::nat) \<le> 1" by simp
  from toeplitz_3x3_rows[OF one zp, of False] obtain out where
    out: "toeplitzize_input ?T 3 1 False 128 = Inr out"
    and shp: "shape out = ((dim1 ?T div 1) * (dim2 ?T div 1), dim0 ?T * 9)"
    and row: "\<forall>r < dim1 ?T div 1. \<forall>c < dim2 ?T div 1.
          rows out ! (r * (dim2 ?T div 1) + c)
            = (if False then receptive_row_minor 128 ?T 1 (r, c) else receptive_row 128 ?T 1 (r, c))"
    and border: "dim0 ?T = 1 \<and> (1::nat) = 1 \<longrightarrow>
          (\<forall>r < dim1 ?T. \<forall>c < dim2 ?T. \<forall>dy < 3. \<forall>dx < 3.
             r + dy = 0 \<or> dim1 ?T < r + dy \<or> c + dx = 0 \<or> dim2 ?T < c + dx \<longrightarrow>
             rows out ! (r * dim2 ?T + c) ! (dy * 3 + dx) = 128)"
    by blast
  have "rows out ! (0 * (dim2 ?T div 1) + 0) = receptive_row 128 ?T 1 (0, 0)"
    using row[rule_format, of 0 0] by (simp add: d)
  then have r0: "rows out ! 0 = receptive_row 128 ?T 1 (0, 0)" by simp
  have "rows out ! (0 * dim2 ?T + 0) ! (0 * 3 + 0) = 128"
    using border[rule_format, of 0 0 0 0] by (simp add: d)
  then have b0: "rows out ! 0 ! 0 = 128" by simp
  have s0: "shape out = (4, 9)" using shp by (simp add: d)
  from r0 b0 zp
  show ?thesis using out s0 v by simp
qed

text \<open>
  Claim C6 as it is written promises the rows, with 128 on the border, for every
  tensor. On a tensor of signed bytes, whose element type refuses 128, the padding of
  the tensor fails and no matrix is returned.
\<close>

theorem toeplitz_3x3_int8_counterexample:
  "toeplitzize_input tensor_int8_1x2x2 3 1 False 128 = Inl OverflowError"
  by (simp add: toeplitzize_input_def pad_hw_def tensor_int8_1x2x2_def int8_raise_def
        transpose_120_def)

text \<open>
  Claim C8, as amended. For every kernel size other than 1 and 3, a stride of at
  least 1 and an input with at least one output pixel, \<open>toeplitzize_input\<close> returns no
  result: it fails with the \<open>AttributeError\<close> of calling \<open>flatten\<close> on the \<open>None\<close> that
  \<open>get_recfield_for_pixel\<close> returns. The source has no error of its own for this.
\<close>

theorem toeplitz_other_ksize_fails:
  assumes "ks \<noteq> 1" "ks \<noteq> 3" "1 \<le> s" "1 \<le> dim1 t div s" "1 \<le> dim2 t div s"
  shows "toeplitzize_input t ks s cm z = Inl AttributeError"
proof -
  let ?px = "pixels (dim1 t div s) (dim2 t div s)"
  have "(0, 0) \<in> set ?px" using assms(4,5) by (simp add: set_pixels)
  moreover have "toeplitz_row (transpose_120 t) ks s cm (dim0 t) px = Inl AttributeError" for px
    using assms(1,2)
    by (simp add: toeplitz_row_def get_recfield_for_pixel_def recfield_flatten_def)
  ultimately have "for_each (toeplitz_row (transpose_120 t) ks s cm (dim0 t)) ?px = Inl AttributeError"
    by (rule for_each_error)
  then show ?thesis
    using assms(1-3) by (simp add: toeplitzize_input_def Let_def pixels_def)
qed

text \<open>The theorem above at a single pixel with kernel size 2 and stride 1.\<close>

theorem toeplitz_other_ksize_fails_witness:
  "(2::int) \<noteq> 1 \<and> (2::int) \<noteq> 3 \<and> (1::nat) \<le> 1
   \<and> 1 \<le> dim1 tensor_1x1x1 div 1 \<and> 1 \<le> dim2 tensor_1x1x1 div 1
   \<and> toeplitzize_input tensor_1x1x1 2 1 False 0 = Inl AttributeError"
proof -
  have d: "1 \<le> dim1 tensor_1x1x1 div 1" "1 \<le> dim2 tensor_1x1x1 div 1"
    by (simp_all add: tensor_1x1x1_def)
  show ?thesis
    using d toeplitz_other_ksize_fails[of 2 1 tensor_1x1x1 False 0] by simp
qed

text \<open>
  Claim C8 as it is written says that no result is returned for any such kernel size.
  With kernel size 2 and stride 2 on a single pixel there is no output pixel, the loops
  do not run, and the empty matrix with one column is returned.
\<close>

theorem toeplitz_other_ksize_counterexample:
  "toeplitzize_input tensor_1x1x1 2 2 False 0 = Inr (Matrix 1 [])"
  by (simp add: toeplitzize_input_def transpose_120_def tensor_1x1x1_def pixels_def)

end
